theory Spec2Isabelle
  imports Main
begin

section \<open>Data model (backend/models.py)\<close>

text \<open>
  The four string enums. \<open>E.value\<close> is the member's string, \<open>E(s)\<close> parses a string and
  raises \<open>ValueError\<close> when no member has that value.
\<close>

datatype error = ValueError string string
  \<comment> \<open>\<open>ValueError enum_name bad_value\<close>: "'bad_value' is not a valid enum_name"\<close>

datatype Importance = very_essential | fairly_essential | not_essential

datatype SegmentImportance = very_important | fairly_important | not_important

datatype CanvasType = Bmc | Vpc | Segments

datatype ChangeAction = Add | Update | Remove

fun CanvasType_value :: "CanvasType \<Rightarrow> string" where
  "CanvasType_value Bmc = ''bmc''"
| "CanvasType_value Vpc = ''vpc''"
| "CanvasType_value Segments = ''segments''"

definition CanvasType_parse :: "string \<Rightarrow> error + CanvasType" where
  "CanvasType_parse s =
     (if s = ''bmc'' then Inr Bmc
      else if s = ''vpc'' then Inr Vpc
      else if s = ''segments'' then Inr Segments
      else Inl (ValueError ''CanvasType'' s))"

fun ChangeAction_value :: "ChangeAction \<Rightarrow> string" where
  "ChangeAction_value Add = ''add''"
| "ChangeAction_value Update = ''update''"
| "ChangeAction_value Remove = ''remove''"

definition ChangeAction_parse :: "string \<Rightarrow> error + ChangeAction" where
  "ChangeAction_parse s =
     (if s = ''add'' then Inr Add
      else if s = ''update'' then Inr Update
      else if s = ''remove'' then Inr Remove
      else Inl (ValueError ''ChangeAction'' s))"

definition SegmentImportance_parse :: "string \<Rightarrow> error + SegmentImportance" where
  "SegmentImportance_parse s =
     (if s = ''very_important'' then Inr very_important
      else if s = ''fairly_important'' then Inr fairly_important
      else if s = ''not_important'' then Inr not_important
      else Inl (ValueError ''SegmentImportance'' s))"

text \<open>\<open>CanvasItem\<close>: an item of a VPC section.\<close>

record CanvasItem =
  item_text :: string
  item_importance :: Importance

text \<open>\<open>CustomerSegment\<close>; \<open>segment_id\<close> is the field \<open>id\<close>.\<close>

record CustomerSegment =
  segment_id :: string
  name :: string
  description :: string
  persona :: string
  importance :: SegmentImportance

text \<open>
  \<open>ProposedChange\<close>; \<open>change_id\<close> is the field \<open>id\<close>. \<open>None\<close> is Python's \<open>None\<close> of the
  two optional strings.
\<close>

record ProposedChange =
  change_id :: string
  canvas_type :: CanvasType
  field :: string
  action :: ChangeAction
  old_value :: "string option"
  new_value :: "string option"
  reason :: string
  change_hash :: string

text \<open>
  The canvases as the tools see them: \<open>model_dump()\<close> dictionaries. A BMC maps each field
  name to its list of strings, a VPC maps each section name to its list of items.
\<close>

type_synonym bmc_dict = "string \<rightharpoonup> string list"
type_synonym vpc_dict = "string \<rightharpoonup> CanvasItem list"

text \<open>
  A snapshot stored in a version: the BMC dictionary, the VPC dictionary, or the
  dictionary \<open>{"items": [...]}\<close> wrapping the list of segments.
\<close>

datatype snapshot =
  BMCSnapshot bmc_dict
| VPCSnapshot vpc_dict
| SegmentsSnapshot "CustomerSegment list"

text \<open>
  \<open>CanvasVersion\<close>; \<open>version_id\<close>, \<open>version_canvas_type\<close> and \<open>version_change_hash\<close> are
  the fields \<open>id\<close>, \<open>canvas_type\<close> and \<open>change_hash\<close>.
\<close>

record CanvasVersion =
  version_id :: string
  timestamp :: string
  version_canvas_type :: CanvasType
  change_description :: string
  version_change_hash :: string
  snapshot_before :: snapshot
  snapshot_after :: snapshot
  applied_by :: string

record ActionOutcome =
  outcome_id :: string
  outcome_timestamp :: string
  action_name :: string
  outcome :: string
  learnings :: string

subsection \<open>The fingerprint of a change\<close>

text \<open>Python's \<open>x or d\<close> on an optional string: \<open>None\<close> and the empty string are falsy.\<close>

definition truthy :: "string option \<Rightarrow> bool" where
  "truthy v = (case v of None \<Rightarrow> False | Some x \<Rightarrow> x \<noteq> [])"

definition or_default :: "string option \<Rightarrow> string \<Rightarrow> string" where
  "or_default v d = (case v of None \<Rightarrow> d | Some x \<Rightarrow> if x = [] then d else x)"

text \<open>
  \<open>compute_hash\<close>: the string that is hashed is
  \<open>f"{canvas_type.value}|{field}|{action.value}|{new_value or ''}"\<close>. The hash itself,
  \<open>hashlib.sha256(raw.encode()).hexdigest()[:16]\<close>, is a library function: it is the
  parameter \<open>H\<close> of everything that constructs a change.
\<close>

definition hash_input :: "ProposedChange \<Rightarrow> string" where
  "hash_input c =
     CanvasType_value (canvas_type c) @ ''|'' @ field c @ ''|'' @
     ChangeAction_value (action c) @ ''|'' @ or_default (new_value c) ''''"

definition compute_hash :: "(string \<Rightarrow> string) \<Rightarrow> ProposedChange \<Rightarrow> string" where
  "compute_hash H c = H (hash_input c)"

text \<open>\<open>model_post_init\<close>: the hash is computed when the field is still empty.\<close>

definition model_post_init :: "(string \<Rightarrow> string) \<Rightarrow> ProposedChange \<Rightarrow> ProposedChange" where
  "model_post_init H c = (if change_hash c = [] then c\<lparr>change_hash := compute_hash H c\<rparr> else c)"

text \<open>
  The construction \<open>ProposedChange(canvas_type=..., field=..., action=..., old_value=...,
  new_value=..., reason=...)\<close> of \<open>propose_canvas_update\<close>: \<open>cid\<close> is the random id, the
  hash field starts empty.
\<close>

definition new_change ::
  "(string \<Rightarrow> string) \<Rightarrow> string \<Rightarrow> CanvasType \<Rightarrow> string \<Rightarrow> ChangeAction \<Rightarrow>
   string option \<Rightarrow> string option \<Rightarrow> string \<Rightarrow> ProposedChange" where
  "new_change H cid t fld a ov nv rsn =
     model_post_init H
       \<lparr>change_id = cid, canvas_type = t, field = fld, action = a,
        old_value = ov, new_value = nv, reason = rsn, change_hash = []\<rparr>"


section \<open>Thread state (backend/state.py)\<close>

text \<open>
  The dictionary of one thread. \<open>get_canvas_state\<close> creates it with all ten keys and no
  tool removes a key, so \<open>state.get(k, default)\<close> and \<open>state.setdefault(k, default)\<close> read
  the key itself.
\<close>

record canvas_state =
  bmc :: bmc_dict
  vpc :: vpc_dict
  segments :: "CustomerSegment list"
  versions :: "CanvasVersion list"
  pending_changes :: "ProposedChange list"
  rejected_changes :: "ProposedChange list"
  undo_stack :: "CanvasVersion list"
  redo_stack :: "CanvasVersion list"
  auto_mode :: bool
  action_log :: "ActionOutcome list"

definition get_seed_bmc :: bmc_dict where
  "get_seed_bmc =
     [''key_partners'' \<mapsto> [''Cloud infrastructure providers'', ''University incubators''],
      ''key_activities'' \<mapsto> [''Product development'', ''Customer discovery interviews''],
      ''key_resources'' \<mapsto> [''Engineering team'', ''Customer research data''],
      ''value_propositions'' \<mapsto> [''AI-powered business model validation for founders''],
      ''customer_relationships'' \<mapsto> [''Self-service platform'', ''Guided onboarding''],
      ''channels'' \<mapsto> [''Direct web app'', ''Startup community events''],
      ''customer_segments'' \<mapsto> [''Early-stage tech founders'', ''Accelerator programs''],
      ''cost_structure'' \<mapsto> [''Cloud hosting'', ''AI API costs'', ''Team salaries''],
      ''revenue_streams'' \<mapsto> [''SaaS subscription'']]"

definition get_seed_vpc :: vpc_dict where
  "get_seed_vpc =
     [''customer_jobs'' \<mapsto>
        [\<lparr>item_text = ''Validate business model assumptions'', item_importance = very_essential\<rparr>,
         \<lparr>item_text = ''Track experiment outcomes'', item_importance = very_essential\<rparr>,
         \<lparr>item_text = ''Iterate on value proposition'', item_importance = fairly_essential\<rparr>],
      ''pains'' \<mapsto>
        [\<lparr>item_text = ''Manual canvas updates are tedious'', item_importance = very_essential\<rparr>,
         \<lparr>item_text = ''Hard to connect experiment results to model changes'',
           item_importance = fairly_essential\<rparr>],
      ''gains'' \<mapsto>
        [\<lparr>item_text = ''Faster iteration cycles'', item_importance = very_essential\<rparr>,
         \<lparr>item_text = ''Evidence-based business model decisions'',
           item_importance = fairly_essential\<rparr>],
      ''products_services'' \<mapsto>
        [\<lparr>item_text = ''AI co-pilot for canvas management'', item_importance = very_essential\<rparr>],
      ''pain_relievers'' \<mapsto>
        [\<lparr>item_text = ''Automatic canvas updates from experiment results'',
           item_importance = very_essential\<rparr>],
      ''gain_creators'' \<mapsto>
        [\<lparr>item_text = ''Version history with undo/redo'', item_importance = fairly_essential\<rparr>]]"

text \<open>The two seed segments get random ids: the ids are arguments.\<close>

definition get_seed_segments :: "string \<Rightarrow> string \<Rightarrow> CustomerSegment list" where
  "get_seed_segments id1 id2 =
     [\<lparr>segment_id = id1, name = ''Technical Founders'',
       description = ''Founders with engineering backgrounds building B2B SaaS'',
       persona = ''Alex, 28, ex-FAANG engineer, building dev tools startup'',
       importance = very_important\<rparr>,
      \<lparr>segment_id = id2, name = ''Accelerator Teams'',
       description = ''Teams in accelerator programs needing structured validation'',
       persona = ''Priya, 32, leading a 3-person team in Y Combinator'',
       importance = fairly_important\<rparr>]"

text \<open>The state \<open>get_canvas_state\<close> stores for a thread id it has not seen.\<close>

definition get_canvas_state :: "string \<Rightarrow> string \<Rightarrow> canvas_state" where
  "get_canvas_state id1 id2 =
     \<lparr>bmc = get_seed_bmc, vpc = get_seed_vpc, segments = get_seed_segments id1 id2,
      versions = [], pending_changes = [], rejected_changes = [],
      undo_stack = [], redo_stack = [], auto_mode = False, action_log = []\<rparr>"

section \<open>The apply algorithm (backend/tools.py, \<open>_apply_single_change\<close>)\<close>

text \<open>
  A tool call returns its text, or raises; either way the thread's dictionary stays as
  the call left it. So every operation yields a pair: \<open>Inr text\<close> or \<open>Inl exception\<close>,
  and the state afterwards.
\<close>

type_synonym tool_result = "(error + string) \<times> canvas_state"

text \<open>
  What a call draws from \<open>uuid.uuid4()\<close> and \<open>datetime.now()\<close>: the id and timestamp of
  the version it records and the id of a segment it creates.
\<close>

record fresh =
  fresh_version_id :: string
  fresh_timestamp :: string
  fresh_segment_id :: string

definition apostrophe :: string where
  "apostrophe = [CHR 0x27]"

definition newline :: string where
  "newline = [CHR 0x0A]"

text \<open>\<open>a or b\<close> on two optional strings, and an optional string inside an f-string.\<close>

definition value_or :: "string option \<Rightarrow> string option \<Rightarrow> string option" where
  "value_or a b = (if truthy a then a else b)"

definition format_optional :: "string option \<Rightarrow> string" where
  "format_optional v = (case v of None \<Rightarrow> ''None'' | Some x \<Rightarrow> x)"

text \<open>\<open>f"{action} '{change.new_value or change.old_value}' in {canvas_type}.{field}"\<close>\<close>

definition describe_change :: "ProposedChange \<Rightarrow> string" where
  "describe_change change =
     ChangeAction_value (action change) @ '' '' @ apostrophe @
     format_optional (value_or (new_value change) (old_value change)) @ apostrophe @
     '' in '' @ CanvasType_value (canvas_type change) @ ''.'' @ field change"

text \<open>
  The tail of \<open>_apply_single_change\<close> (from \<open># Record version\<close>): \<open>state\<close> is the state
  after the canvas was assigned, \<open>ct\<close> the string \<open>canvas_type\<close>. \<open>make_version\<close> is the
  call \<open>CanvasVersion(...)\<close>, \<open>applied_message\<close> the text returned.
\<close>

definition make_version ::
  "canvas_state \<Rightarrow> ProposedChange \<Rightarrow> CanvasType \<Rightarrow> snapshot \<Rightarrow> snapshot \<Rightarrow> fresh \<Rightarrow> CanvasVersion" where
  "make_version state change t snap_before snap_after fr =
     \<lparr>version_id = fresh_version_id fr, timestamp = fresh_timestamp fr,
      version_canvas_type = t, change_description = describe_change change,
      version_change_hash = change_hash change,
      snapshot_before = snap_before, snapshot_after = snap_after,
      applied_by = (if auto_mode state then ''auto'' else ''manual'')\<rparr>"

definition applied_message :: "ProposedChange \<Rightarrow> string" where
  "applied_message change =
     ''Applied: '' @ describe_change change @ ''. Reason: '' @ reason change"

definition record_version ::
  "canvas_state \<Rightarrow> ProposedChange \<Rightarrow> string \<Rightarrow> snapshot \<Rightarrow> snapshot \<Rightarrow> fresh \<Rightarrow> tool_result" where
  "record_version state change ct snap_before snap_after fr =
     (case CanvasType_parse ct of
        Inl e \<Rightarrow> (Inl e, state)
      | Inr t \<Rightarrow>
          let version = make_version state change t snap_before snap_after fr
          in (Inr (applied_message change),
              state\<lparr>versions := versions state @ [version], redo_stack := [],
                undo_stack := undo_stack state @ [version]\<rparr>))"

text \<open>The texts the three early returns of \<open>_apply_single_change\<close> give back.\<close>

definition invalid_bmc_field_message :: "string \<Rightarrow> string" where
  "invalid_bmc_field_message fld = ''Invalid BMC field: '' @ fld"

definition invalid_vpc_field_message :: "string \<Rightarrow> string" where
  "invalid_vpc_field_message fld = ''Invalid VPC field: '' @ fld"

definition segment_not_found_message :: "string \<Rightarrow> string" where
  "segment_not_found_message ov =
     ''No segment found with name '' @ apostrophe @ ov @ apostrophe @
     ''. Pass the segment'' @ apostrophe @
     ''s name as old_value to identify which segment to update.''"

definition unknown_canvas_type_message :: "string \<Rightarrow> string" where
  "unknown_canvas_type_message ct = ''Unknown canvas type: '' @ ct"

text \<open>The \<open>bmc\<close> branch. \<open>the\<close> is applied to a value only under its truthiness test.\<close>

definition apply_bmc :: "canvas_state \<Rightarrow> ProposedChange \<Rightarrow> fresh \<Rightarrow> tool_result" where
  "apply_bmc state change fr =
     (let canvas_dict = bmc state;
          snapshot_before = BMCSnapshot canvas_dict;
          act = ChangeAction_value (action change)
      in case canvas_dict (field change) of
           None \<Rightarrow> (Inr (invalid_bmc_field_message (field change)), state)
         | Some entries \<Rightarrow>
             let canvas_dict' =
                   (if act = ''add'' \<and> truthy (new_value change) then
                      (if the (new_value change) \<notin> set entries
                       then canvas_dict(field change \<mapsto> entries @ [the (new_value change)])
                       else canvas_dict)
                    else if act = ''remove'' \<and> truthy (old_value change) then
                      canvas_dict(field change \<mapsto>
                        filter (\<lambda>v. v \<noteq> the (old_value change)) entries)
                    else if act = ''update'' \<and> truthy (old_value change)
                            \<and> truthy (new_value change) then
                      canvas_dict(field change \<mapsto>
                        map (\<lambda>v. if v = the (old_value change) then the (new_value change) else v)
                          entries)
                    else canvas_dict)
             in record_version (state\<lparr>bmc := canvas_dict'\<rparr>) change ''bmc''
                  snapshot_before (BMCSnapshot canvas_dict') fr)"

text \<open>The \<open>vpc\<close> branch.\<close>

definition apply_vpc :: "canvas_state \<Rightarrow> ProposedChange \<Rightarrow> fresh \<Rightarrow> tool_result" where
  "apply_vpc state change fr =
     (let canvas_dict = vpc state;
          snapshot_before = VPCSnapshot canvas_dict;
          act = ChangeAction_value (action change)
      in case canvas_dict (field change) of
           None \<Rightarrow> (Inr (invalid_vpc_field_message (field change)), state)
         | Some entries \<Rightarrow>
             let canvas_dict' =
                   (if act = ''add'' \<and> truthy (new_value change) then
                      (let existing_texts = map item_text entries
                       in if the (new_value change) \<notin> set existing_texts
                          then canvas_dict(field change \<mapsto> entries @
                                 [\<lparr>item_text = the (new_value change),
                                   item_importance = fairly_essential\<rparr>])
                          else canvas_dict)
                    else if act = ''remove'' \<and> truthy (old_value change) then
                      canvas_dict(field change \<mapsto>
                        filter (\<lambda>item. item_text item \<noteq> the (old_value change)) entries)
                    else if act = ''update'' \<and> truthy (old_value change)
                            \<and> truthy (new_value change) then
                      canvas_dict(field change \<mapsto>
                        map (\<lambda>item. if item_text item = the (old_value change)
                                    then item\<lparr>item_text := the (new_value change)\<rparr> else item)
                          entries)
                    else canvas_dict)
             in record_version (state\<lparr>vpc := canvas_dict'\<rparr>) change ''vpc''
                  snapshot_before (VPCSnapshot canvas_dict') fr)"

text \<open>
  The \<open>for seg in segments: ... break ... else: return\<close> loop of a segment update. It
  ends in one of three ways: no segment had the name (the \<open>else\<close> clause runs), the
  importance did not parse (\<open>ValueError\<close>), or the first segment of that name was
  handled and the loop left by \<open>break\<close>. A field other than the four named ones changes
  nothing in the segment found.
\<close>

datatype for_result = Completed | Raised error | Broke "CustomerSegment list"

fun update_segment_loop ::
  "string \<Rightarrow> string \<Rightarrow> string \<Rightarrow> CustomerSegment list \<Rightarrow> for_result" where
  "update_segment_loop fld ov nv [] = Completed"
| "update_segment_loop fld ov nv (seg # rest) =
     (if name seg = ov then
        (if fld = ''name'' then Broke (seg\<lparr>name := nv\<rparr> # rest)
         else if fld = ''description'' then Broke (seg\<lparr>description := nv\<rparr> # rest)
         else if fld = ''persona'' then Broke (seg\<lparr>persona := nv\<rparr> # rest)
         else if fld = ''importance'' then
           (case SegmentImportance_parse nv of
              Inl e \<Rightarrow> Raised e
            | Inr i \<Rightarrow> Broke (seg\<lparr>importance := i\<rparr> # rest))
         else Broke (seg # rest))
      else (case update_segment_loop fld ov nv rest of
              Broke rest' \<Rightarrow> Broke (seg # rest')
            | r \<Rightarrow> r))"

text \<open>
  The \<open>segments\<close> branch. \<open>CustomerSegment(**s)\<close> and \<open>model_dump()\<close> are inverse on the
  segments the state holds, so \<open>segs\<close> is the list itself.
\<close>

definition apply_segments :: "canvas_state \<Rightarrow> ProposedChange \<Rightarrow> fresh \<Rightarrow> tool_result" where
  "apply_segments state change fr =
     (let segs = segments state;
          snapshot_before = SegmentsSnapshot segs;
          act = ChangeAction_value (action change);
          finish = (\<lambda>segs'. record_version (state\<lparr>segments := segs'\<rparr>) change ''segments''
                              snapshot_before (SegmentsSnapshot segs') fr)
      in if act = ''add'' \<and> truthy (new_value change) then
           (if \<not> (\<exists>s \<in> set segs. name s = the (new_value change))
            then finish (segs @
                   [\<lparr>segment_id = fresh_segment_id fr, name = the (new_value change),
                     description = (if field change \<noteq> ''name'' then field change else []),
                     persona = [], importance = fairly_important\<rparr>])
            else finish segs)
         else if act = ''remove'' \<and> truthy (old_value change) then
           finish (filter (\<lambda>s. name s \<noteq> the (old_value change)) segs)
         else if act = ''update'' \<and> truthy (old_value change) \<and> truthy (new_value change) then
           (case update_segment_loop (field change) (the (old_value change))
                   (the (new_value change)) segs of
              Completed \<Rightarrow>
                (Inr (segment_not_found_message (the (old_value change))), state)
            | Raised e \<Rightarrow> (Inl e, state)
            | Broke segs' \<Rightarrow> finish segs')
         else finish segs)"

definition apply_single_change :: "canvas_state \<Rightarrow> ProposedChange \<Rightarrow> fresh \<Rightarrow> tool_result" where
  "apply_single_change state change fr =
     (let ct = CanvasType_value (canvas_type change)
      in if ct = ''bmc'' then apply_bmc state change fr
         else if ct = ''vpc'' then apply_vpc state change fr
         else if ct = ''segments'' then apply_segments state change fr
         else (Inr (unknown_canvas_type_message ct), state))"

section \<open>The tools (backend/tools.py)\<close>

subsection \<open>\<open>propose_canvas_update\<close>\<close>

text \<open>
  \<open>H\<close> is the hash, \<open>cid\<close> the random id of the change constructed, \<open>fr\<close> what an
  immediate apply draws. The enums are parsed in the order the arguments of
  \<open>ProposedChange(...)\<close> are evaluated; a \<open>ValueError\<close> leaves the function before the
  state is read.
\<close>

definition proposed_message ::
  "string \<Rightarrow> string \<Rightarrow> string \<Rightarrow> string option \<Rightarrow> string option \<Rightarrow> string \<Rightarrow> string \<Rightarrow> string" where
  "proposed_message ct fld act ov nv rsn cid =
     ''Proposed change:'' @ newline @
     ''  Canvas: '' @ ct @ newline @
     ''  Field: '' @ fld @ newline @
     ''  Action: '' @ act @ newline @
     ''  Old: '' @ or_default ov ''(none)'' @ newline @
     ''  New: '' @ or_default nv ''(none)'' @ newline @
     ''  Reason: '' @ rsn @ newline @
     ''[change_id:'' @ cid @ ''] Waiting for founder approval.''"

definition duplicate_message :: "string \<Rightarrow> string" where
  "duplicate_message h =
     ''This change has already been applied (hash: '' @ h @ ''). Skipping duplicate.''"

definition propose_canvas_update ::
  "(string \<Rightarrow> string) \<Rightarrow> string \<Rightarrow> fresh \<Rightarrow>
   string \<Rightarrow> string \<Rightarrow> string \<Rightarrow> string option \<Rightarrow> string option \<Rightarrow> string \<Rightarrow>
   canvas_state \<Rightarrow> tool_result" where
  "propose_canvas_update H cid fr ct fld act nv ov rsn state =
     (case CanvasType_parse ct of
        Inl e \<Rightarrow> (Inl e, state)
      | Inr ct' \<Rightarrow>
     (case ChangeAction_parse act of
        Inl e \<Rightarrow> (Inl e, state)
      | Inr act' \<Rightarrow>
          let change = new_change H cid ct' fld act' ov nv rsn;
              existing_hashes = set (map version_change_hash (versions state))
          in if change_hash change \<in> existing_hashes then
               (Inr (duplicate_message (change_hash change)), state)
             else if auto_mode state then
               (case apply_single_change state change fr of
                  (Inl e, state') \<Rightarrow> (Inl e, state')
                | (Inr result, state') \<Rightarrow> (Inr (''[Auto-applied] '' @ result), state'))
             else
               (Inr (proposed_message ct fld act ov nv rsn (change_id change)),
                state\<lparr>pending_changes := pending_changes state @ [change]\<rparr>)))"

subsection \<open>\<open>apply_proposed_changes\<close>\<close>

definition not_found_message :: "string \<Rightarrow> string" where
  "not_found_message cid = ''Change '' @ cid @ '' not found in pending changes.''"

definition already_applied_message :: "string \<Rightarrow> string" where
  "already_applied_message cid = ''Change '' @ cid @ '' already applied (duplicate). Skipping.''"

text \<open>
  The body of the \<open>for cid in change_ids\<close> loop, for one id: the report appended to
  \<open>results\<close> (or the exception) and the state. \<open>pending\<close> is the list read before the loop.
\<close>

definition process_change_id ::
  "(string \<Rightarrow> string) \<Rightarrow> ProposedChange list \<Rightarrow> string \<Rightarrow> fresh \<Rightarrow> canvas_state \<Rightarrow> tool_result" where
  "process_change_id H pending cid fr state =
     (case find (\<lambda>c. change_id c = cid) pending of
        None \<Rightarrow> (Inr (not_found_message cid), state)
      | Some change_dict \<Rightarrow>
          if change_hash change_dict \<in> set (map version_change_hash (versions state)) then
            (Inr (already_applied_message cid), state)
          else apply_single_change state (model_post_init H change_dict) fr)"

text \<open>
  The loop: \<open>frs i\<close> is what the apply of the \<open>i\<close>-th id draws, \<open>results\<close> the reports so
  far. An exception leaves the loop with the state reached.
\<close>

fun apply_changes_loop ::
  "(string \<Rightarrow> string) \<Rightarrow> (nat \<Rightarrow> fresh) \<Rightarrow> ProposedChange list \<Rightarrow> nat \<Rightarrow> string list \<Rightarrow>
   string list \<Rightarrow> canvas_state \<Rightarrow> (error + string list) \<times> canvas_state" where
  "apply_changes_loop H frs pending i [] results state = (Inr results, state)"
| "apply_changes_loop H frs pending i (cid # cids) results state =
     (case process_change_id H pending cid (frs i) state of
        (Inl e, state') \<Rightarrow> (Inl e, state')
      | (Inr result, state') \<Rightarrow>
          apply_changes_loop H frs pending (Suc i) cids (results @ [result]) state')"

text \<open>\<open>"\n".join(results)\<close>\<close>

fun join_lines :: "string list \<Rightarrow> string" where
  "join_lines [] = []"
| "join_lines [r] = r"
| "join_lines (r # rs) = r @ newline @ join_lines rs"

definition batch_ids :: "string list \<Rightarrow> canvas_state \<Rightarrow> string list" where
  "batch_ids change_ids state =
     (if change_ids = [] then map change_id (pending_changes state) else change_ids)"

definition apply_proposed_changes ::
  "(string \<Rightarrow> string) \<Rightarrow> (nat \<Rightarrow> fresh) \<Rightarrow> string list \<Rightarrow> canvas_state \<Rightarrow> tool_result" where
  "apply_proposed_changes H frs change_ids state =
     (let pending = pending_changes state;
          change_ids' = batch_ids change_ids state
      in case apply_changes_loop H frs pending 0 change_ids' [] state of
           (Inl e, state') \<Rightarrow> (Inl e, state')
         | (Inr results, state') \<Rightarrow>
             (Inr (join_lines results),
              state'\<lparr>pending_changes :=
                filter (\<lambda>c. change_id c \<notin> set change_ids') pending\<rparr>))"

subsection \<open>\<open>undo_last_change\<close> and \<open>redo_change\<close>\<close>

text \<open>
  The assignment of a snapshot to the canvas its version names. Every version is built
  by \<open>record_version\<close>, whose snapshots have the shape of the canvas named; for the other
  combinations, which no version has, the state is left as it is.
\<close>

definition restore :: "CanvasType \<Rightarrow> snapshot \<Rightarrow> canvas_state \<Rightarrow> canvas_state" where
  "restore t snap state =
     (if CanvasType_value t = ''bmc'' then
        (case snap of BMCSnapshot d \<Rightarrow> state\<lparr>bmc := d\<rparr> | _ \<Rightarrow> state)
      else if CanvasType_value t = ''vpc'' then
        (case snap of VPCSnapshot d \<Rightarrow> state\<lparr>vpc := d\<rparr> | _ \<Rightarrow> state)
      else if CanvasType_value t = ''segments'' then
        (case snap of SegmentsSnapshot items \<Rightarrow> state\<lparr>segments := items\<rparr> | _ \<Rightarrow> state)
      else state)"

definition undo_last_change :: "canvas_state \<Rightarrow> tool_result" where
  "undo_last_change state =
     (if undo_stack state = [] then (Inr ''Nothing to undo.'', state)
      else
        let last_version = last (undo_stack state);
            state1 = state\<lparr>undo_stack := butlast (undo_stack state),
                       redo_stack := redo_stack state @ [last_version]\<rparr>;
            state2 = state1\<lparr>versions :=
                       filter (\<lambda>v. version_change_hash v \<noteq> version_change_hash last_version)
                         (versions state1)\<rparr>
        in (Inr (''Undone: '' @ change_description last_version),
            restore (version_canvas_type last_version) (snapshot_before last_version) state2))"

definition redo_change :: "canvas_state \<Rightarrow> tool_result" where
  "redo_change state =
     (if redo_stack state = [] then (Inr ''Nothing to redo.'', state)
      else
        let version = last (redo_stack state);
            state1 = state\<lparr>redo_stack := butlast (redo_stack state),
                       undo_stack := undo_stack state @ [version]\<rparr>;
            state2 =
              (if \<not> (\<exists>v \<in> set (versions state1).
                        version_change_hash v = version_change_hash version)
               then state1\<lparr>versions := versions state1 @ [version]\<rparr> else state1)
        in (Inr (''Redone: '' @ change_description version),
            restore (version_canvas_type version) (snapshot_after version) state2))"

subsection \<open>\<open>log_action_outcome\<close>\<close>

definition log_action_outcome ::
  "string \<Rightarrow> string \<Rightarrow> string \<Rightarrow> string \<Rightarrow> string \<Rightarrow> canvas_state \<Rightarrow> tool_result" where
  "log_action_outcome oid ts aname outc learn state =
     (Inr (''Logged action outcome:'' @ newline @
           ''  Action: '' @ aname @ newline @
           ''  Outcome: '' @ outc @ newline @
           ''  Learnings: '' @ learn @ newline @
           ''Now analyzing implications for your business canvases...''),
      state\<lparr>action_log := action_log state @
        [\<lparr>outcome_id = oid, outcome_timestamp = ts, action_name = aname,
          outcome = outc, learnings = learn\<rparr>]\<rparr>)"

section \<open>The endpoints that write the state (backend/main.py)\<close>

text \<open>\<open>update_thread_state\<close> with an \<open>auto_mode\<close> value.\<close>

definition set_auto_mode :: "bool \<Rightarrow> canvas_state \<Rightarrow> canvas_state" where
  "set_auto_mode b state = state\<lparr>auto_mode := b\<rparr>"

text \<open>\<open>reject_change\<close>: the state it leaves (its JSON answer is not modelled).\<close>

definition reject_change :: "string \<Rightarrow> canvas_state \<Rightarrow> canvas_state" where
  "reject_change cid state =
     (let pending = pending_changes state;
          rejected = find (\<lambda>c. change_id c = cid) pending;
          state1 = state\<lparr>pending_changes := filter (\<lambda>c. change_id c \<noteq> cid) pending\<rparr>
      in case rejected of
           None \<Rightarrow> state1
         | Some c \<Rightarrow> state1\<lparr>rejected_changes := rejected_changes state1 @ [c]\<rparr>)"

section \<open>Reachable states\<close>

text \<open>
  The states of a thread: the seeded state, and whatever a call of a tool or of a
  writing endpoint leaves, whether it returned or raised.
\<close>

inductive reachable :: "(string \<Rightarrow> string) \<Rightarrow> canvas_state \<Rightarrow> bool" for H where
  reach_init: "reachable H (get_canvas_state id1 id2)"
| reach_propose:
    "reachable H s \<Longrightarrow> reachable H (snd (propose_canvas_update H cid fr ct fld act nv ov rsn s))"
| reach_apply: "reachable H s \<Longrightarrow> reachable H (snd (apply_proposed_changes H frs ids s))"
| reach_undo: "reachable H s \<Longrightarrow> reachable H (snd (undo_last_change s))"
| reach_redo: "reachable H s \<Longrightarrow> reachable H (snd (redo_change s))"
| reach_log: "reachable H s \<Longrightarrow> reachable H (snd (log_action_outcome oid ts an oc le s))"
| reach_auto: "reachable H s \<Longrightarrow> reachable H (set_auto_mode b s)"
| reach_reject: "reachable H s \<Longrightarrow> reachable H (reject_change cid s)"

section \<open>Vocabulary of the statements\<close>

text \<open>
  The field of a change names a key of the canvas it targets. The segments branch never
  looks the field up, so every field is accepted there.
\<close>

definition valid_field :: "canvas_state \<Rightarrow> ProposedChange \<Rightarrow> bool" where
  "valid_field s c =
     (case canvas_type c of
        Bmc \<Rightarrow> bmc s (field c) \<noteq> None
      | Vpc \<Rightarrow> vpc s (field c) \<noteq> None
      | Segments \<Rightarrow> True)"

text \<open>
  The strings an \<open>add\<close>, \<open>update\<close> or \<open>remove\<close> compares its value with: the entries of the
  BMC field, the texts of the VPC section, the names of the segments.
\<close>

definition entry_texts :: "canvas_state \<Rightarrow> ProposedChange \<Rightarrow> string list" where
  "entry_texts s c =
     (case canvas_type c of
        Bmc \<Rightarrow> (case bmc s (field c) of None \<Rightarrow> [] | Some xs \<Rightarrow> xs)
      | Vpc \<Rightarrow> (case vpc s (field c) of None \<Rightarrow> [] | Some xs \<Rightarrow> map item_text xs)
      | Segments \<Rightarrow> map name (segments s))"

text \<open>The snapshot of the canvas of one type, and the version an apply records.\<close>

definition canvas_snapshot :: "CanvasType \<Rightarrow> canvas_state \<Rightarrow> snapshot" where
  "canvas_snapshot t s =
     (case t of
        Bmc \<Rightarrow> BMCSnapshot (bmc s)
      | Vpc \<Rightarrow> VPCSnapshot (vpc s)
      | Segments \<Rightarrow> SegmentsSnapshot (segments s))"

definition recorded ::
  "canvas_state \<Rightarrow> ProposedChange \<Rightarrow> fresh \<Rightarrow> canvas_state \<Rightarrow> CanvasVersion" where
  "recorded s c fr s' =
     make_version s c (canvas_type c) (canvas_snapshot (canvas_type c) s)
       (canvas_snapshot (canvas_type c) s') fr"

text \<open>The value an action needs is \<open>None\<close> or the empty string.\<close>

definition missing_required :: "ProposedChange \<Rightarrow> bool" where
  "missing_required c =
     (case action c of
        Add \<Rightarrow> \<not> truthy (new_value c)
      | Remove \<Rightarrow> \<not> truthy (old_value c)
      | Update \<Rightarrow> \<not> (truthy (old_value c) \<and> truthy (new_value c)))"

text \<open>The fingerprints of the version log.\<close>

definition fingerprints :: "canvas_state \<Rightarrow> string list" where
  "fingerprints s = map version_change_hash (versions s)"

text \<open>What an apply returns when it records a version and changes no canvas.\<close>

definition noop_result :: "canvas_state \<Rightarrow> ProposedChange \<Rightarrow> fresh \<Rightarrow> tool_result" where
  "noop_result s c fr =
     (Inr (applied_message c),
      s\<lparr>versions := versions s @ [recorded s c fr s], redo_stack := [],
        undo_stack := undo_stack s @ [recorded s c fr s]\<rparr>)"

text \<open>Concrete inputs for the examples: a seeded thread and the values one apply draws.\<close>

definition seeded :: canvas_state where
  "seeded = get_canvas_state ''5e9d01aa'' ''5e9d02bb''"

definition drawn :: fresh where
  "drawn = \<lparr>fresh_version_id = ''7e51a001'', fresh_timestamp = ''2025-01-01T00:00:00+00:00'',
             fresh_segment_id = ''5e9d03cc''\<rparr>"

text \<open>
  In how many of the four components that are hashed two changes differ; the \<open>new_value\<close>
  is compared after \<open>new_value or ''\<close>.
\<close>

definition differences :: "ProposedChange \<Rightarrow> ProposedChange \<Rightarrow> nat" where
  "differences c1 c2 =
     (if canvas_type c1 = canvas_type c2 then 0 else 1) +
     (if field c1 = field c2 then 0 else 1) +
     (if action c1 = action c2 then 0 else 1) +
     (if or_default (new_value c1) [] = or_default (new_value c2) [] then 0 else 1)"

text \<open>The field of a change does not contain the character that separates the hashed parts.\<close>

definition separator_free :: "ProposedChange \<Rightarrow> bool" where
  "separator_free c = (CHR ''|'' \<notin> set (field c))"

text \<open>
  \<open>applied s c fr s'\<close>: the state \<open>s'\<close> is \<open>s\<close> after a successful apply of \<open>c\<close>. Only the
  canvas the change names may differ, the version recorded holds that canvas before and
  after, it is appended to the log and pushed onto the undo stack, and the redo stack is
  empty.
\<close>

definition applied :: "canvas_state \<Rightarrow> ProposedChange \<Rightarrow> fresh \<Rightarrow> canvas_state \<Rightarrow> bool" where
  "applied s c fr s' =
     (versions s' = versions s @ [recorded s c fr s']
      \<and> undo_stack s' = undo_stack s @ [recorded s c fr s']
      \<and> redo_stack s' = []
      \<and> (canvas_type c = Bmc \<or> bmc s' = bmc s)
      \<and> (canvas_type c = Vpc \<or> vpc s' = vpc s)
      \<and> (canvas_type c = Segments \<or> segments s' = segments s)
      \<and> pending_changes s' = pending_changes s
      \<and> rejected_changes s' = rejected_changes s
      \<and> auto_mode s' = auto_mode s
      \<and> action_log s' = action_log s)"

text \<open>Every pending change carries the fingerprint of its own content.\<close>

definition pending_hashed :: "(string \<Rightarrow> string) \<Rightarrow> canvas_state \<Rightarrow> bool" where
  "pending_hashed H s = (\<forall>c \<in> set (pending_changes s). change_hash c = compute_hash H c)"

text \<open>
  The state a batch has reached when its loop starts on the \<open>k\<close>-th id: the state after the
  loop over the first \<open>k\<close> ids.
\<close>

definition state_before ::
  "(string \<Rightarrow> string) \<Rightarrow> (nat \<Rightarrow> fresh) \<Rightarrow> ProposedChange list \<Rightarrow> string list \<Rightarrow> nat \<Rightarrow>
   canvas_state \<Rightarrow> canvas_state" where
  "state_before H frs pending ids k s =
     snd (apply_changes_loop H frs pending 0 (take k ids) [] s)"

section \<open>Concrete changes used as examples\<close>

definition duplicate_pain :: ProposedChange where
  "duplicate_pain =
     \<lparr>change_id = ''c4a11e01'', canvas_type = Vpc, field = ''pains'', action = Add,
      old_value = None, new_value = Some ''Manual canvas updates are tedious'',
      reason = ''heard again in interview 7'', change_hash = ''9f2c4e6a8b0d1f35''\<rparr>"

definition add_without_value :: ProposedChange where
  "add_without_value =
     \<lparr>change_id = ''c4a11e02'', canvas_type = Bmc, field = ''channels'', action = Add,
      old_value = None, new_value = None, reason = ''no value given'',
      change_hash = ''1b3d5f7a9c0e2468''\<rparr>"

definition alex_persona :: "string option \<Rightarrow> ProposedChange" where
  "alex_persona nv =
     \<lparr>change_id = ''c4a11e03'', canvas_type = Segments, field = ''persona'', action = Update,
      old_value = Some ''Alex'', new_value = nv, reason = ''interview notes'',
      change_hash = ''2c4e6a8b0d1f3579''\<rparr>"

definition acme :: "string \<Rightarrow> string option \<Rightarrow> string option \<Rightarrow> string \<Rightarrow> ProposedChange" where
  "acme fld ov nv rsn =
     \<lparr>change_id = ''c4a11e04'', canvas_type = Bmc, field = fld, action = Add,
      old_value = ov, new_value = nv, reason = rsn, change_hash = []\<rparr>"

definition students :: ProposedChange where
  "students =
     \<lparr>change_id = ''c4a11e05'', canvas_type = Segments, field = ''pricing'', action = Add,
      old_value = None, new_value = Some ''Students'', reason = ''campus survey'',
      change_hash = ''3d5f7a9c0e1b2468''\<rparr>"

definition critical :: ProposedChange where
  "critical =
     \<lparr>change_id = ''c4a11e06'', canvas_type = Segments, field = ''importance'',
      action = Update, old_value = Some ''Technical Founders'', new_value = Some ''critical'',
      reason = ''every interviewee was one'', change_hash = ''4e6a8b0d1f3c2579''\<rparr>"

definition acme_applied :: "(string \<Rightarrow> string) \<Rightarrow> canvas_state" where
  "acme_applied H =
     snd (propose_canvas_update H ''c4a11e04'' drawn ''bmc'' ''key_partners'' ''add''
            (Some ''Acme Cloud'') None ''pilot'' (set_auto_mode True seeded))"

definition acme_again :: "(string \<Rightarrow> string) \<Rightarrow> ProposedChange" where
  "acme_again H =
     new_change H ''c4a11e08'' Bmc ''key_partners'' Add (Some ''AWS'') (Some ''Acme Cloud'')
       ''second pilot''"

definition acme_new :: "(string \<Rightarrow> string) \<Rightarrow> ProposedChange" where
  "acme_new H = new_change H ''c4a11e04'' Bmc ''key_partners'' Add None (Some ''Acme Cloud'') ''pilot''"

definition students_new :: "(string \<Rightarrow> string) \<Rightarrow> ProposedChange" where
  "students_new H =
     new_change H ''c4a11e05'' Segments ''pricing'' Add None (Some ''Students'') ''campus survey''"

definition critical_new :: "(string \<Rightarrow> string) \<Rightarrow> ProposedChange" where
  "critical_new H =
     new_change H ''c4a11e06'' Segments ''importance'' Update (Some ''Technical Founders'')
       (Some ''critical'') ''every interviewee was one''"

definition two_pending :: "(string \<Rightarrow> string) \<Rightarrow> canvas_state" where
  "two_pending H =
     snd (propose_canvas_update H ''c4a11e05'' drawn ''segments'' ''pricing'' ''add''
            (Some ''Students'') None ''campus survey''
       (snd (propose_canvas_update H ''c4a11e04'' drawn ''bmc'' ''key_partners'' ''add''
               (Some ''Acme Cloud'') None ''pilot'' seeded)))"

definition critical_pending :: "(string \<Rightarrow> string) \<Rightarrow> canvas_state" where
  "critical_pending H =
     snd (propose_canvas_update H ''c4a11e06'' drawn ''segments'' ''importance'' ''update''
            (Some ''critical'') (Some ''Technical Founders'') ''every interviewee was one''
            seeded)"

text \<open>A second change auto-applied after the first, under a hash that is the identity.\<close>

definition both_applied :: canvas_state where
  "both_applied =
     snd (propose_canvas_update (\<lambda>raw. raw) ''c4a11e05'' drawn ''segments'' ''pricing'' ''add''
            (Some ''Students'') None ''campus survey'' (acme_applied (\<lambda>raw. raw)))"

text \<open>A segment added in auto mode whose field contains the separator.\<close>

definition separator_first :: "(string \<Rightarrow> string) \<Rightarrow> canvas_state" where
  "separator_first H =
     snd (propose_canvas_update H ''c4a11e09'' drawn ''segments'' ''a|add'' ''add''
            (Some ''y'') None ''first call'' (set_auto_mode True seeded))"

text \<open>Two pending changes, the second with an importance outside its enum.\<close>

definition students_critical_pending :: canvas_state where
  "students_critical_pending =
     snd (propose_canvas_update (\<lambda>raw. raw) ''c4a11e06'' drawn ''segments'' ''importance''
            ''update'' (Some ''critical'') (Some ''Technical Founders'')
            ''every interviewee was one''
       (snd (propose_canvas_update (\<lambda>raw. raw) ''c4a11e05'' drawn ''segments'' ''pricing'' ''add''
               (Some ''Students'') None ''campus survey'' seeded)))"

section \<open>Vocabulary of the round trip\<close>

text \<open>Undo and redo called \<open>n\<close> times in a row.\<close>

fun undo_n :: "nat \<Rightarrow> canvas_state \<Rightarrow> canvas_state" where
  "undo_n 0 s = s"
| "undo_n (Suc n) s = undo_n n (snd (undo_last_change s))"

fun redo_n :: "nat \<Rightarrow> canvas_state \<Rightarrow> canvas_state" where
  "redo_n 0 s = s"
| "redo_n (Suc n) s = redo_n n (snd (redo_change s))"

text \<open>
  \<open>applied_run H s n s'\<close>: from \<open>s\<close>, a sequence of proposals and approvals (and of calls
  that touch neither canvas nor log) leads to \<open>s'\<close> and applies \<open>n\<close> changes; a call applies
  as many changes as it appends versions to the log. No undo or redo is part of the run.
\<close>

inductive applied_run :: "(string \<Rightarrow> string) \<Rightarrow> canvas_state \<Rightarrow> nat \<Rightarrow> canvas_state \<Rightarrow> bool"
  for H and s where
  run_start: "applied_run H s 0 s"
| run_propose:
    "applied_run H s n s1 \<Longrightarrow>
     s2 = snd (propose_canvas_update H cid fr ct fld act nv ov rsn s1) \<Longrightarrow>
     applied_run H s (n + (length (versions s2) - length (versions s1))) s2"
| run_approve:
    "applied_run H s n s1 \<Longrightarrow>
     s2 = snd (apply_proposed_changes H frs ids s1) \<Longrightarrow>
     applied_run H s (n + (length (versions s2) - length (versions s1))) s2"
| run_auto: "applied_run H s n s1 \<Longrightarrow> applied_run H s n (set_auto_mode b s1)"
| run_reject: "applied_run H s n s1 \<Longrightarrow> applied_run H s n (reject_change cid s1)"
| run_log:
    "applied_run H s n s1 \<Longrightarrow> applied_run H s n (snd (log_action_outcome oid ts an oc le s1))"

text \<open>The three canvases of a state, and the two assignments undo and redo make.\<close>

definition canvases ::
  "canvas_state \<Rightarrow> bmc_dict \<times> vpc_dict \<times> CustomerSegment list" where
  "canvases s = (bmc s, vpc s, segments s)"

definition restore_before :: "CanvasVersion \<Rightarrow> canvas_state \<Rightarrow> canvas_state" where
  "restore_before w = restore (version_canvas_type w) (snapshot_before w)"

definition restore_after :: "CanvasVersion \<Rightarrow> canvas_state \<Rightarrow> canvas_state" where
  "restore_after w = restore (version_canvas_type w) (snapshot_after w)"

text \<open>
  \<open>extended s ws s'\<close>: \<open>s'\<close> is \<open>s\<close> after the versions \<open>ws\<close> were recorded, in this order, by
  applies whose fingerprints were not in the log.
\<close>

definition extended :: "canvas_state \<Rightarrow> CanvasVersion list \<Rightarrow> canvas_state \<Rightarrow> bool" where
  "extended s ws s' =
     (versions s' = versions s @ ws
      \<and> undo_stack s' = undo_stack s @ ws
      \<and> distinct (map version_change_hash ws)
      \<and> set (map version_change_hash ws) \<inter> set (fingerprints s) = {}
      \<and> canvases (fold restore_after ws s) = canvases s'
      \<and> canvases (foldr restore_before ws s') = canvases s)"

section \<open>Basic facts\<close>

lemma CanvasType_parse_value: "CanvasType_parse (CanvasType_value t) = Inr t"
  by (cases t) (simp_all add: CanvasType_parse_def)

lemma ChangeAction_parse_value: "ChangeAction_parse (ChangeAction_value a) = Inr a"
  by (cases a) (simp_all add: ChangeAction_parse_def)

lemma ChangeAction_value_eq:
  "ChangeAction_value a = ''add'' \<longleftrightarrow> a = Add"
  "ChangeAction_value a = ''update'' \<longleftrightarrow> a = Update"
  "ChangeAction_value a = ''remove'' \<longleftrightarrow> a = Remove"
  by (cases a; simp)+

lemma record_version_value:
  "record_version st c (CanvasType_value t) b a fr =
     (Inr (applied_message c),
      st\<lparr>versions := versions st @ [make_version st c t b a fr], redo_stack := [],
         undo_stack := undo_stack st @ [make_version st c t b a fr]\<rparr>)"
  by (simp add: record_version_def CanvasType_parse_value Let_def)

lemmas record_version_simps =
  record_version_value [of _ _ Bmc, simplified]
  record_version_value [of _ _ Vpc, simplified]
  record_version_value [of _ _ Segments, simplified]

lemma apply_single_change_cases:
  "apply_single_change s c fr =
     (case canvas_type c of Bmc \<Rightarrow> apply_bmc s c fr | Vpc \<Rightarrow> apply_vpc s c fr
      | Segments \<Rightarrow> apply_segments s c fr)"
  by (cases "canvas_type c") (simp_all add: apply_single_change_def)

lemma map_replace_absent: "ov \<notin> set xs \<Longrightarrow> map (\<lambda>v. if v = ov then nv else v) xs = xs"
  by (induction xs) auto

lemma map_item_replace_absent:
  "ov \<notin> item_text ` set xs \<Longrightarrow>
   map (\<lambda>item. if item_text item = ov then item\<lparr>item_text := nv\<rparr> else item) xs = xs"
  by (induction xs) auto

lemma noop_bmc:
  assumes ct: "canvas_type c = Bmc" and valid: "valid_field s c"
    and noop: "(action c = Update \<and> old_value c \<notin> Some ` set (entry_texts s c))
       \<or> (action c = Add \<and> new_value c \<in> Some ` set (entry_texts s c))
       \<or> missing_required c"
  shows "apply_single_change s c fr = noop_result s c fr"
proof -
  from valid ct obtain ys where ys: "bmc s (field c) = Some ys" by (auto simp: valid_field_def)
  have texts: "entry_texts s c = ys" by (simp add: entry_texts_def ct ys)
  have same: "(bmc s)(field c \<mapsto> ys) = bmc s" using ys by (rule map_upd_triv)
  note defs = apply_single_change_cases ct apply_bmc_def ys Let_def record_version_simps
            recorded_def canvas_snapshot_def noop_result_def ChangeAction_value_eq
  from noop consider
      (u) "action c = Update" "old_value c \<notin> Some ` set (entry_texts s c)"
    | (a) "action c = Add" "new_value c \<in> Some ` set (entry_texts s c)"
    | (m) "missing_required c" by blast
  then show ?thesis
  proof cases
    case u
    then have "truthy (old_value c) \<Longrightarrow> the (old_value c) \<notin> set ys"
      by (auto simp: texts truthy_def split: option.splits)
    then have "truthy (old_value c) \<Longrightarrow>
      map (\<lambda>v. if v = the (old_value c) then the (new_value c) else v) ys = ys"
      by (simp add: map_replace_absent)
    with u show ?thesis by (simp add: defs same)
  next
    case a
    then have "the (new_value c) \<in> set ys" by (auto simp: texts)
    with a show ?thesis by (simp add: defs)
  next
    case m
    then show ?thesis by (cases "action c") (auto simp: defs missing_required_def)
  qed
qed

lemma noop_vpc:
  assumes ct: "canvas_type c = Vpc" and valid: "valid_field s c"
    and noop: "(action c = Update \<and> old_value c \<notin> Some ` set (entry_texts s c))
       \<or> (action c = Add \<and> new_value c \<in> Some ` set (entry_texts s c))
       \<or> missing_required c"
  shows "apply_single_change s c fr = noop_result s c fr"
proof -
  from valid ct obtain ys where ys: "vpc s (field c) = Some ys" by (auto simp: valid_field_def)
  have texts: "entry_texts s c = map item_text ys" by (simp add: entry_texts_def ct ys)
  have same: "(vpc s)(field c \<mapsto> ys) = vpc s" using ys by (rule map_upd_triv)
  note defs = apply_single_change_cases ct apply_vpc_def ys Let_def record_version_simps
            recorded_def canvas_snapshot_def noop_result_def ChangeAction_value_eq
  from noop consider
      (u) "action c = Update" "old_value c \<notin> Some ` set (entry_texts s c)"
    | (a) "action c = Add" "new_value c \<in> Some ` set (entry_texts s c)"
    | (m) "missing_required c" by blast
  then show ?thesis
  proof cases
    case u
    then have "truthy (old_value c) \<Longrightarrow> the (old_value c) \<notin> item_text ` set ys"
      by (auto simp: texts truthy_def split: option.splits)
    then have "truthy (old_value c) \<Longrightarrow>
      map (\<lambda>item. if item_text item = the (old_value c)
                  then item\<lparr>item_text := the (new_value c)\<rparr> else item) ys = ys"
      by (simp add: map_item_replace_absent)
    with u show ?thesis by (simp add: defs same)
  next
    case a
    then have "the (new_value c) \<in> item_text ` set ys" by (auto simp: texts)
    with a show ?thesis by (simp add: defs)
  next
    case m
    then show ?thesis by (cases "action c") (auto simp: defs missing_required_def)
  qed
qed

lemma noop_segments_missing:
  assumes ct: "canvas_type c = Segments" and m: "missing_required c"
  shows "apply_single_change s c fr = noop_result s c fr"
  using m
  by (cases "action c")
     (auto simp: apply_single_change_cases ct apply_segments_def Let_def record_version_simps
        recorded_def canvas_snapshot_def noop_result_def ChangeAction_value_eq
        missing_required_def)

lemma new_change_fields [simp]:
  "change_id (new_change H cid t f a ov nv r) = cid"
  "canvas_type (new_change H cid t f a ov nv r) = t"
  "field (new_change H cid t f a ov nv r) = f"
  "action (new_change H cid t f a ov nv r) = a"
  "old_value (new_change H cid t f a ov nv r) = ov"
  "new_value (new_change H cid t f a ov nv r) = nv"
  "reason (new_change H cid t f a ov nv r) = r"
  by (simp_all add: new_change_def model_post_init_def)

lemma new_change_hash:
  "change_hash (new_change H cid t f a ov nv r) =
     H (CanvasType_value t @ ''|'' @ f @ ''|'' @ ChangeAction_value a @ ''|'' @ or_default nv [])"
  by (simp add: new_change_def model_post_init_def compute_hash_def hash_input_def)

lemma new_change_hash_content:
  assumes "canvas_type c = t" "field c = f" "action c = a" "new_value c = nv"
  shows "change_hash (new_change H cid t f a ov nv r) = compute_hash H c"
  using assms by (auto simp: new_change_hash compute_hash_def hash_input_def)

lemma propose_parsed:
  "propose_canvas_update H cid fr (CanvasType_value t) f (ChangeAction_value a) nv ov r s =
     (let change = new_change H cid t f a ov nv r
      in if change_hash change \<in> set (fingerprints s) then
           (Inr (duplicate_message (change_hash change)), s)
         else if auto_mode s then
           (case apply_single_change s change fr of
              (Inl e, s') \<Rightarrow> (Inl e, s')
            | (Inr result, s') \<Rightarrow> (Inr (''[Auto-applied] '' @ result), s'))
         else
           (Inr (proposed_message (CanvasType_value t) f (ChangeAction_value a) ov nv r cid),
            s\<lparr>pending_changes := pending_changes s @ [change]\<rparr>))"
  by (simp add: propose_canvas_update_def CanvasType_parse_value ChangeAction_parse_value
        fingerprints_def Let_def)

lemma propose_duplicate:
  assumes "change_hash (new_change H cid t f a ov nv r) \<in> set (fingerprints s)"
  shows "propose_canvas_update H cid fr (CanvasType_value t) f (ChangeAction_value a) nv ov r s =
     (Inr (duplicate_message (change_hash (new_change H cid t f a ov nv r))), s)"
  using assms by (simp add: propose_parsed)

lemma noop_result_fields [simp]:
  "fst (noop_result s c fr) = Inr (applied_message c)"
  "bmc (snd (noop_result s c fr)) = bmc s"
  "vpc (snd (noop_result s c fr)) = vpc s"
  "segments (snd (noop_result s c fr)) = segments s"
  "versions (snd (noop_result s c fr)) = versions s @ [recorded s c fr s]"
  "undo_stack (snd (noop_result s c fr)) = undo_stack s @ [recorded s c fr s]"
  "redo_stack (snd (noop_result s c fr)) = []"
  "pending_changes (snd (noop_result s c fr)) = pending_changes s"
  by (simp_all add: noop_result_def)

lemma recorded_same [simp]:
  "snapshot_before (recorded s c fr s) = snapshot_after (recorded s c fr s)"
  "version_change_hash (recorded s c fr s') = change_hash c"
  "version_canvas_type (recorded s c fr s') = canvas_type c"
  by (simp_all add: recorded_def make_version_def)

lemma update_segment_loop_Completed:
  "update_segment_loop f ov nv segs = Completed \<longleftrightarrow> ov \<notin> name ` set segs"
proof (induction segs)
  case Nil
  show ?case by simp
next
  case (Cons seg rest)
  show ?case
  proof (cases "name seg = ov")
    case True
    then show ?thesis by (auto split: sum.splits)
  next
    case False
    with Cons show ?thesis by (auto split: for_result.splits)
  qed
qed

lemma update_segment_loop_Raised:
  "update_segment_loop f ov nv segs = Raised e \<Longrightarrow>
     f = ''importance'' \<and> e = ValueError ''SegmentImportance'' nv \<and> ov \<in> name ` set segs"
proof (induction segs)
  case Nil
  then show ?case by simp
next
  case (Cons seg rest)
  show ?case
  proof (cases "name seg = ov")
    case True
    with Cons.prems show ?thesis
      by (auto simp: SegmentImportance_parse_def split: sum.splits if_splits)
  next
    case False
    with Cons show ?thesis by (auto split: for_result.splits)
  qed
qed

lemma apply_change_loop_duplicate:
  assumes "find (\<lambda>c. change_id c = cid) pending = Some c'"
    and "change_hash c' \<in> set (fingerprints s)"
  shows "apply_changes_loop H frs pending i [cid] results s =
           (Inr (results @ [already_applied_message cid]), s)"
  using assms by (simp add: fingerprints_def process_change_id_def)

lemma CanvasType_value_inj: "CanvasType_value t1 = CanvasType_value t2 \<longleftrightarrow> t1 = t2"
  by (cases t1; cases t2; simp)

lemma ChangeAction_value_inj: "ChangeAction_value a1 = ChangeAction_value a2 \<longleftrightarrow> a1 = a2"
  by (cases a1; cases a2; simp)

lemma hash_input_one_difference:
  assumes "differences c1 c2 = 1"
  shows "hash_input c1 \<noteq> hash_input c2"
proof -
  consider (t) "canvas_type c1 \<noteq> canvas_type c2" "field c1 = field c2" "action c1 = action c2"
        "or_default (new_value c1) [] = or_default (new_value c2) []"
    | (f) "canvas_type c1 = canvas_type c2" "field c1 \<noteq> field c2" "action c1 = action c2"
        "or_default (new_value c1) [] = or_default (new_value c2) []"
    | (a) "canvas_type c1 = canvas_type c2" "field c1 = field c2" "action c1 \<noteq> action c2"
        "or_default (new_value c1) [] = or_default (new_value c2) []"
    | (n) "canvas_type c1 = canvas_type c2" "field c1 = field c2" "action c1 = action c2"
        "or_default (new_value c1) [] \<noteq> or_default (new_value c2) []"
    using assms by (auto simp: differences_def split: if_splits)
  then show ?thesis
  proof cases
    case t
    then show ?thesis by (simp add: hash_input_def CanvasType_value_inj)
  next
    case f
    then show ?thesis by (simp add: hash_input_def)
  next
    case a
    then show ?thesis by (simp add: hash_input_def ChangeAction_value_inj)
  next
    case n
    then show ?thesis by (simp add: hash_input_def)
  qed
qed

lemma compute_hash_no_difference:
  assumes "differences c1 c2 = 0"
  shows "compute_hash H c1 = compute_hash H c2"
  using assms by (simp add: differences_def compute_hash_def hash_input_def split: if_splits)

lemma make_version_canvas_update [simp]:
  "make_version (s\<lparr>bmc := b\<rparr>) c t sb sa fr = make_version s c t sb sa fr"
  "make_version (s\<lparr>vpc := v\<rparr>) c t sb sa fr = make_version s c t sb sa fr"
  "make_version (s\<lparr>segments := g\<rparr>) c t sb sa fr = make_version s c t sb sa fr"
  by (simp_all add: make_version_def)

lemma apply_bmc_outcome:
  assumes ct: "canvas_type c = Bmc"
  shows "(\<not> valid_field s c \<and> apply_bmc s c fr = (Inr (invalid_bmc_field_message (field c)), s))
       \<or> (valid_field s c \<and> (\<exists>s'. apply_bmc s c fr = (Inr (applied_message c), s') \<and> applied s c fr s'))"
proof (cases "bmc s (field c)")
  case None
  then show ?thesis by (simp add: apply_bmc_def valid_field_def ct)
next
  case (Some ys)
  then have v: "valid_field s c" by (simp add: valid_field_def ct)
  show ?thesis
    using v
    by (simp add: apply_bmc_def Some Let_def record_version_simps applied_def recorded_def
          canvas_snapshot_def ct)
qed

lemma apply_vpc_outcome:
  assumes ct: "canvas_type c = Vpc"
  shows "(\<not> valid_field s c \<and> apply_vpc s c fr = (Inr (invalid_vpc_field_message (field c)), s))
       \<or> (valid_field s c \<and> (\<exists>s'. apply_vpc s c fr = (Inr (applied_message c), s') \<and> applied s c fr s'))"
proof (cases "vpc s (field c)")
  case None
  then show ?thesis by (simp add: apply_vpc_def valid_field_def ct)
next
  case (Some ys)
  then have v: "valid_field s c" by (simp add: valid_field_def ct)
  show ?thesis
    using v
    by (simp add: apply_vpc_def Some Let_def record_version_simps applied_def recorded_def
          canvas_snapshot_def ct)
qed

lemma apply_segments_outcome:
  assumes ct: "canvas_type c = Segments"
  shows "(action c = Update \<and> truthy (old_value c) \<and> truthy (new_value c)
            \<and> old_value c \<notin> Some ` set (entry_texts s c)
            \<and> apply_segments s c fr = (Inr (segment_not_found_message (the (old_value c))), s))
       \<or> (action c = Update \<and> truthy (old_value c) \<and> truthy (new_value c)
            \<and> field c = ''importance''
            \<and> apply_segments s c fr
                = (Inl (ValueError ''SegmentImportance'' (the (new_value c))), s))
       \<or> (\<exists>s'. apply_segments s c fr = (Inr (applied_message c), s') \<and> applied s c fr s')"
proof -
  note defs = apply_segments_def Let_def record_version_simps ChangeAction_value_eq
    applied_def recorded_def canvas_snapshot_def ct
  show ?thesis
  proof (cases "action c = Update \<and> truthy (old_value c) \<and> truthy (new_value c)")
    case False
    then show ?thesis by (cases "action c") (auto simp: defs)
  next
    case True
    show ?thesis
    proof (cases "update_segment_loop (field c) (the (old_value c)) (the (new_value c))
                    (segments s)")
      case Completed
      then have "the (old_value c) \<notin> name ` set (segments s)"
        by (simp add: update_segment_loop_Completed)
      with True have "old_value c \<notin> Some ` set (entry_texts s c)"
        by (auto simp: entry_texts_def ct truthy_def split: option.splits)
      with True Completed show ?thesis by (simp add: defs)
    next
      case (Raised e)
      from update_segment_loop_Raised [OF Raised] True Raised show ?thesis
        by (simp add: defs)
    next
      case (Broke segs')
      with True show ?thesis by (simp add: defs)
    qed
  qed
qed

lemma apply_single_change_outcome:
  obtains
    (invalid_bmc) "canvas_type c = Bmc" "\<not> valid_field s c"
      "apply_single_change s c fr = (Inr (invalid_bmc_field_message (field c)), s)"
  | (invalid_vpc) "canvas_type c = Vpc" "\<not> valid_field s c"
      "apply_single_change s c fr = (Inr (invalid_vpc_field_message (field c)), s)"
  | (not_found) "canvas_type c = Segments" "action c = Update"
      "truthy (old_value c)" "truthy (new_value c)"
      "old_value c \<notin> Some ` set (entry_texts s c)"
      "apply_single_change s c fr = (Inr (segment_not_found_message (the (old_value c))), s)"
  | (raised) "canvas_type c = Segments" "action c = Update"
      "truthy (old_value c)" "truthy (new_value c)" "field c = ''importance''"
      "apply_single_change s c fr
         = (Inl (ValueError ''SegmentImportance'' (the (new_value c))), s)"
  | (ok) s' where "valid_field s c"
      "apply_single_change s c fr = (Inr (applied_message c), s')" "applied s c fr s'"
proof (cases "canvas_type c")
  case Bmc
  with apply_bmc_outcome [OF Bmc, of s fr] invalid_bmc ok show ?thesis
    by (auto simp: apply_single_change_cases)
next
  case Vpc
  with apply_vpc_outcome [OF Vpc, of s fr] invalid_vpc ok show ?thesis
    by (auto simp: apply_single_change_cases)
next
  case Segments
  then have v: "valid_field s c" by (simp add: valid_field_def)
  from apply_segments_outcome [OF Segments, of s fr] Segments v not_found raised ok
  show ?thesis
    by (auto simp: apply_single_change_cases)
qed

lemma message_distinct:
  "applied_message c \<noteq> invalid_bmc_field_message f"
  "applied_message c \<noteq> invalid_vpc_field_message f"
  "applied_message c \<noteq> segment_not_found_message n"
  "applied_message c \<noteq> unknown_canvas_type_message t"
  "invalid_bmc_field_message f \<noteq> unknown_canvas_type_message t"
  "invalid_vpc_field_message f \<noteq> unknown_canvas_type_message t"
  "segment_not_found_message n \<noteq> unknown_canvas_type_message t"
  by (simp_all add: applied_message_def invalid_bmc_field_message_def
        invalid_vpc_field_message_def segment_not_found_message_def
        unknown_canvas_type_message_def)

lemma apply_failure_unchanged:
  assumes "fst (apply_single_change s c fr) \<noteq> Inr (applied_message c)"
  shows "snd (apply_single_change s c fr) = s"
  using assms by (cases rule: apply_single_change_outcome [where c = c and s = s and fr = fr]) auto

lemma propose_auto_message_distinct:
  "''[Auto-applied] '' @ m \<noteq> duplicate_message h"
  "''[Auto-applied] '' @ m \<noteq> proposed_message ct f a ov nv r cid"
  by (simp_all add: duplicate_message_def proposed_message_def)

lemma apply_bmc_vpc_success:
  assumes "valid_field st c" and "canvas_type c \<noteq> Segments"
  shows "fst (apply_single_change st c fr) = Inr (applied_message c)"
  using assms
  by (cases rule: apply_single_change_outcome [where c = c and s = st and fr = fr]) auto

section \<open>Facts about the examples\<close>

lemma critical_raises:
  "fst (apply_single_change seeded critical drawn)
     = Inl (ValueError ''SegmentImportance'' ''critical'')"
  by (simp add: critical_def apply_single_change_cases apply_segments_def Let_def truthy_def
        seeded_def get_canvas_state_def get_seed_segments_def SegmentImportance_parse_def)

lemma acme_applied_reachable: "reachable H (acme_applied H)"
  unfolding acme_applied_def seeded_def
  by (intro reach_propose reach_auto reach_init)

lemma acme_applied_fingerprints:
  "fingerprints (acme_applied H) = [H ''bmc|key_partners|add|Acme Cloud'']"
  by (simp add: acme_applied_def propose_canvas_update_def CanvasType_parse_def
        ChangeAction_parse_def Let_def new_change_hash set_auto_mode_def seeded_def
        get_canvas_state_def get_seed_bmc_def apply_single_change_def apply_bmc_def
        truthy_def record_version_simps or_default_def fingerprints_def make_version_def
        split: prod.splits)

lemma acme_applied_undo_stack:
  "undo_stack (acme_applied H) \<noteq> []"
  "version_change_hash (last (undo_stack (acme_applied H))) = H ''bmc|key_partners|add|Acme Cloud''"
  "auto_mode (acme_applied H)"
  by (simp_all add: acme_applied_def propose_canvas_update_def CanvasType_parse_def
        ChangeAction_parse_def Let_def new_change_hash set_auto_mode_def seeded_def
        get_canvas_state_def get_seed_bmc_def apply_single_change_def apply_bmc_def
        truthy_def record_version_simps or_default_def fingerprints_def make_version_def
        split: prod.splits)

lemma acme_undone:
  "bmc (snd (undo_last_change (acme_applied H))) = get_seed_bmc"
  "versions (snd (undo_last_change (acme_applied H))) = []"
  by (simp_all add: acme_applied_def propose_canvas_update_def CanvasType_parse_def
        ChangeAction_parse_def Let_def new_change_hash set_auto_mode_def seeded_def
        get_canvas_state_def apply_single_change_def apply_bmc_def get_seed_bmc_def
        truthy_def record_version_simps or_default_def fingerprints_def make_version_def
        undo_last_change_def restore_def
        split: prod.splits)

lemma acme_again_hash: "change_hash (acme_again H) = H ''bmc|key_partners|add|Acme Cloud''"
  by (simp add: acme_again_def new_change_hash or_default_def)

section \<open>What each operation does to the state\<close>

lemma model_post_init_hashed: "change_hash c = compute_hash H c \<Longrightarrow> model_post_init H c = c"
  by (simp add: model_post_init_def)

lemma new_change_hashed:
  "change_hash (new_change H cid t f a ov nv r) = compute_hash H (new_change H cid t f a ov nv r)"
  by (simp add: new_change_hash compute_hash_def hash_input_def)

lemma applied_fields:
  assumes "applied s c fr s'"
  shows "versions s' = versions s @ [recorded s c fr s']"
    and "undo_stack s' = undo_stack s @ [recorded s c fr s']"
    and "redo_stack s' = []"
    and "pending_changes s' = pending_changes s"
    and "rejected_changes s' = rejected_changes s"
    and "auto_mode s' = auto_mode s"
    and "action_log s' = action_log s"
    and "canvas_type c \<noteq> Bmc \<Longrightarrow> bmc s' = bmc s"
    and "canvas_type c \<noteq> Vpc \<Longrightarrow> vpc s' = vpc s"
    and "canvas_type c \<noteq> Segments \<Longrightarrow> segments s' = segments s"
  using assms by (simp_all add: applied_def)

lemma applied_fingerprints:
  "applied s c fr s' \<Longrightarrow> fingerprints s' = fingerprints s @ [change_hash c]"
  by (simp add: applied_fields(1) fingerprints_def)

lemma apply_single_change_effect:
  "snd (apply_single_change s c fr) = s
     \<and> fst (apply_single_change s c fr) \<noteq> Inr (applied_message c)
   \<or> applied s c fr (snd (apply_single_change s c fr))
     \<and> fst (apply_single_change s c fr) = Inr (applied_message c)"
  by (cases rule: apply_single_change_outcome [where c = c and s = s and fr = fr])
     (auto simp: message_distinct [symmetric])

text \<open>One id of a batch leaves the state, or applies a pending change that is not in the log.\<close>

lemma process_change_id_effect:
  "snd (process_change_id H pending cid fr s) = s
   \<or> (\<exists>cd \<in> set pending. change_hash cd \<notin> set (fingerprints s)
        \<and> applied s (model_post_init H cd) fr (snd (process_change_id H pending cid fr s)))"
proof (cases "find (\<lambda>c. change_id c = cid) pending")
  case None
  then show ?thesis by (simp add: process_change_id_def)
next
  case (Some cd)
  then have mem: "cd \<in> set pending" by (auto simp: find_Some_iff)
  show ?thesis
  proof (cases "change_hash cd \<in> set (fingerprints s)")
    case True
    with Some show ?thesis by (simp add: process_change_id_def fingerprints_def)
  next
    case False
    with Some have "process_change_id H pending cid fr s
                      = apply_single_change s (model_post_init H cd) fr"
      by (simp add: process_change_id_def fingerprints_def)
    with apply_single_change_effect [of s "model_post_init H cd" fr] mem False
    show ?thesis by auto
  qed
qed

text \<open>A property kept by every id is kept by the loop.\<close>

lemma apply_changes_loop_keeps:
  assumes "P s"
    and "\<And>st cid fr. P st \<Longrightarrow> P (snd (process_change_id H pending cid fr st))"
  shows "P (snd (apply_changes_loop H frs pending i cids results s))"
  using assms(1)
proof (induction cids arbitrary: i results s)
  case Nil
  then show ?case by simp
next
  case (Cons cid cids)
  have step: "P (snd (process_change_id H pending cid (frs i) s))"
    using Cons.prems by (rule assms(2))
  show ?case
  proof (cases "process_change_id H pending cid (frs i) s")
    case (Pair r s1)
    with step have p1: "P s1" by simp
    show ?thesis
    proof (cases r)
      case (Inl e)
      with Pair p1 show ?thesis by simp
    next
      case (Inr m)
      with Pair Cons.IH [OF p1] show ?thesis by simp
    qed
  qed
qed

lemma process_change_id_pending:
  "pending_changes (snd (process_change_id H pending cid fr s)) = pending_changes s"
  using process_change_id_effect [of H pending cid fr s] by (auto simp: applied_fields)

lemma apply_changes_loop_pending:
  "pending_changes (snd (apply_changes_loop H frs pending i cids results s)) = pending_changes s"
  by (rule apply_changes_loop_keeps [where P = "\<lambda>st. pending_changes st = pending_changes s"])
     (simp_all add: process_change_id_pending)

lemma process_change_id_distinct:
  assumes "distinct (fingerprints s)"
    and "\<forall>c \<in> set pending. change_hash c = compute_hash H c"
  shows "distinct (fingerprints (snd (process_change_id H pending cid fr s)))"
proof -
  from process_change_id_effect [of H pending cid fr s]
  consider "snd (process_change_id H pending cid fr s) = s"
    | cd where "cd \<in> set pending" "change_hash cd \<notin> set (fingerprints s)"
        "applied s (model_post_init H cd) fr (snd (process_change_id H pending cid fr s))"
    by blast
  then show ?thesis
  proof cases
    case 1
    with assms(1) show ?thesis by simp
  next
    case 2
    from 2(1) assms(2) have "model_post_init H cd = cd" by (simp add: model_post_init_hashed)
    with 2 assms(1) show ?thesis by (simp add: applied_fingerprints)
  qed
qed

lemma apply_changes_loop_distinct:
  assumes "distinct (fingerprints s)"
    and "\<forall>c \<in> set pending. change_hash c = compute_hash H c"
  shows "distinct (fingerprints (snd (apply_changes_loop H frs pending i cids results s)))"
  by (rule apply_changes_loop_keeps [where P = "\<lambda>st. distinct (fingerprints st)"])
     (simp_all add: assms process_change_id_distinct)

lemma restore_other_fields [simp]:
  "versions (restore t snap s) = versions s"
  "undo_stack (restore t snap s) = undo_stack s"
  "redo_stack (restore t snap s) = redo_stack s"
  "pending_changes (restore t snap s) = pending_changes s"
  "rejected_changes (restore t snap s) = rejected_changes s"
  "auto_mode (restore t snap s) = auto_mode s"
  "action_log (restore t snap s) = action_log s"
  by (cases t; cases snap; simp add: restore_def)+

lemma fingerprints_restore [simp]: "fingerprints (restore t snap s) = fingerprints s"
  by (simp add: fingerprints_def)

lemma fingerprints_update [simp]:
  "fingerprints (s\<lparr>versions := vs\<rparr>) = map version_change_hash vs"
  "fingerprints (s\<lparr>bmc := b\<rparr>) = fingerprints s"
  "fingerprints (s\<lparr>vpc := v\<rparr>) = fingerprints s"
  "fingerprints (s\<lparr>segments := g\<rparr>) = fingerprints s"
  "fingerprints (s\<lparr>pending_changes := p\<rparr>) = fingerprints s"
  "fingerprints (s\<lparr>rejected_changes := p\<rparr>) = fingerprints s"
  "fingerprints (s\<lparr>undo_stack := u\<rparr>) = fingerprints s"
  "fingerprints (s\<lparr>redo_stack := u\<rparr>) = fingerprints s"
  "fingerprints (s\<lparr>auto_mode := m\<rparr>) = fingerprints s"
  "fingerprints (s\<lparr>action_log := l\<rparr>) = fingerprints s"
  by (simp_all add: fingerprints_def)

lemma in_log_iff:
  "(\<exists>v \<in> set (versions s). version_change_hash v = h) \<longleftrightarrow> h \<in> set (fingerprints s)"
  by (force simp: fingerprints_def)

lemma undo_fingerprints:
  "fingerprints (snd (undo_last_change s))
     = (if undo_stack s = [] then fingerprints s
        else filter (\<lambda>h. h \<noteq> version_change_hash (last (undo_stack s))) (fingerprints s))"
  by (simp add: undo_last_change_def Let_def) (simp add: fingerprints_def filter_map comp_def)

lemma redo_fingerprints:
  "fingerprints (snd (redo_change s))
     = (if redo_stack s = [] \<or> version_change_hash (last (redo_stack s)) \<in> set (fingerprints s)
        then fingerprints s
        else fingerprints s @ [version_change_hash (last (redo_stack s))])"
  by (simp add: redo_change_def Let_def in_log_iff) (simp add: fingerprints_def)

lemma undo_pending [simp]: "pending_changes (snd (undo_last_change s)) = pending_changes s"
  by (simp add: undo_last_change_def Let_def)

lemma redo_pending [simp]: "pending_changes (snd (redo_change s)) = pending_changes s"
  by (simp add: redo_change_def Let_def)

lemma CanvasType_parse_Inr: "CanvasType_parse s = Inr t \<Longrightarrow> s = CanvasType_value t"
  by (auto simp: CanvasType_parse_def split: if_splits)

lemma ChangeAction_parse_Inr: "ChangeAction_parse s = Inr a \<Longrightarrow> s = ChangeAction_value a"
  by (auto simp: ChangeAction_parse_def split: if_splits)

lemma propose_effect:
  "snd (propose_canvas_update H cid fr ct fld act nv ov rsn s) = s
   \<or> (\<exists>t a. CanvasType_parse ct = Inr t \<and> ChangeAction_parse act = Inr a
        \<and> change_hash (new_change H cid t fld a ov nv rsn) \<notin> set (fingerprints s)
        \<and> (auto_mode s
             \<and> applied s (new_change H cid t fld a ov nv rsn) fr
                 (snd (propose_canvas_update H cid fr ct fld act nv ov rsn s))
           \<or> \<not> auto_mode s
             \<and> snd (propose_canvas_update H cid fr ct fld act nv ov rsn s)
                 = s\<lparr>pending_changes := pending_changes s @ [new_change H cid t fld a ov nv rsn]\<rparr>))"
proof (cases "CanvasType_parse ct")
  case (Inl e)
  then show ?thesis by (simp add: propose_canvas_update_def)
next
  case (Inr t)
  note t = this
  show ?thesis
  proof (cases "ChangeAction_parse act")
    case (Inl e)
    with t show ?thesis by (simp add: propose_canvas_update_def)
  next
    case (Inr a)
    let ?c = "new_change H cid t fld a ov nv rsn"
    have ct: "ct = CanvasType_value t" and act: "act = ChangeAction_value a"
      using t Inr by (simp_all add: CanvasType_parse_Inr ChangeAction_parse_Inr)
    show ?thesis
    proof (cases "change_hash ?c \<in> set (fingerprints s)")
      case True
      then show ?thesis unfolding ct act by (simp add: propose_parsed)
    next
      case False
      show ?thesis
      proof (cases "auto_mode s")
        case False
        with \<open>change_hash ?c \<notin> set (fingerprints s)\<close> t Inr show ?thesis
          unfolding ct act by (simp add: propose_parsed CanvasType_parse_value
                ChangeAction_parse_value)
      next
        case True
        have "snd (propose_canvas_update H cid fr ct fld act nv ov rsn s)
                = snd (apply_single_change s ?c fr)"
          using True False unfolding ct act
          by (simp add: propose_parsed split: prod.splits sum.splits)
        with apply_single_change_effect [of s ?c fr] True False
        show ?thesis unfolding ct act
          by (auto simp: CanvasType_parse_value ChangeAction_parse_value)
      qed
    qed
  qed
qed

lemma apply_proposed_changes_state:
  "snd (apply_proposed_changes H frs ids s)
     = (let l = apply_changes_loop H frs (pending_changes s) 0 (batch_ids ids s) [] s
        in case fst l of
             Inl e \<Rightarrow> snd l
           | Inr results \<Rightarrow>
               (snd l)\<lparr>pending_changes :=
                 filter (\<lambda>c. change_id c \<notin> set (batch_ids ids s)) (pending_changes s)\<rparr>)"
  by (simp add: apply_proposed_changes_def Let_def split: prod.splits sum.splits)

lemma pending_hashed_subset:
  "pending_hashed H s \<Longrightarrow> set (pending_changes s') \<subseteq> set (pending_changes s)
     \<Longrightarrow> pending_hashed H s'"
  by (auto simp: pending_hashed_def)

lemma apply_proposed_changes_invariant:
  assumes d: "distinct (fingerprints s)" and p: "pending_hashed H s"
  shows "distinct (fingerprints (snd (apply_proposed_changes H frs ids s)))
         \<and> pending_hashed H (snd (apply_proposed_changes H frs ids s))"
proof -
  let ?l = "apply_changes_loop H frs (pending_changes s) 0 (batch_ids ids s) [] s"
  from p have ph: "\<forall>c \<in> set (pending_changes s). change_hash c = compute_hash H c"
    by (simp add: pending_hashed_def)
  have dl: "distinct (fingerprints (snd ?l))"
    by (rule apply_changes_loop_distinct [OF d ph])
  have pl: "pending_changes (snd ?l) = pending_changes s"
    by (rule apply_changes_loop_pending)
  show ?thesis
  proof (cases "fst ?l")
    case (Inl e)
    then have "snd (apply_proposed_changes H frs ids s) = snd ?l"
      by (simp add: apply_proposed_changes_state)
    with dl pl p show ?thesis by (simp add: pending_hashed_def)
  next
    case (Inr results)
    then have eq: "snd (apply_proposed_changes H frs ids s)
        = (snd ?l)\<lparr>pending_changes :=
             filter (\<lambda>c. change_id c \<notin> set (batch_ids ids s)) (pending_changes s)\<rparr>"
      by (simp add: apply_proposed_changes_state)
    have "pending_hashed H (snd (apply_proposed_changes H frs ids s))"
      by (rule pending_hashed_subset [OF p]) (simp add: eq)
    with dl show ?thesis by (simp add: eq)
  qed
qed

lemma propose_invariant:
  assumes d: "distinct (fingerprints s)" and p: "pending_hashed H s"
  shows "distinct (fingerprints (snd (propose_canvas_update H cid fr ct fld act nv ov rsn s)))
         \<and> pending_hashed H (snd (propose_canvas_update H cid fr ct fld act nv ov rsn s))"
proof -
  let ?s' = "snd (propose_canvas_update H cid fr ct fld act nv ov rsn s)"
  from propose_effect [of H cid fr ct fld act nv ov rsn s]
  consider (same) "?s' = s"
    | (auto) t a where "change_hash (new_change H cid t fld a ov nv rsn) \<notin> set (fingerprints s)"
        "applied s (new_change H cid t fld a ov nv rsn) fr ?s'"
    | (manual) t a where
        "?s' = s\<lparr>pending_changes := pending_changes s @ [new_change H cid t fld a ov nv rsn]\<rparr>"
    by blast
  then show ?thesis
  proof cases
    case same
    with d p show ?thesis by simp
  next
    case auto
    from auto(2) have "pending_changes ?s' = pending_changes s" by (rule applied_fields)
    with p have "pending_hashed H ?s'" by (simp add: pending_hashed_def)
    with auto d show ?thesis by (simp add: applied_fingerprints)
  next
    case manual
    with d p show ?thesis by (simp add: pending_hashed_def new_change_hashed)
  qed
qed

lemma reachable_invariant:
  "reachable H s \<Longrightarrow> distinct (fingerprints s) \<and> pending_hashed H s"
proof (induction rule: reachable.induct)
  case (reach_init id1 id2)
  show ?case by (simp add: get_canvas_state_def fingerprints_def pending_hashed_def)
next
  case (reach_propose s cid fr ct fld act nv ov rsn)
  then show ?case by (simp add: propose_invariant)
next
  case (reach_apply s frs ids)
  then show ?case by (simp add: apply_proposed_changes_invariant)
next
  case (reach_undo s)
  then show ?case by (simp add: undo_fingerprints pending_hashed_def)
next
  case (reach_redo s)
  then show ?case by (simp add: redo_fingerprints pending_hashed_def)
next
  case (reach_log s oid ts an oc le)
  then show ?case by (simp add: log_action_outcome_def pending_hashed_def)
next
  case (reach_auto s b)
  then show ?case by (simp add: set_auto_mode_def pending_hashed_def)
next
  case (reach_reject s cid)
  then show ?case
    by (auto simp: reject_change_def Let_def pending_hashed_def split: option.splits)
qed

lemma undo_closes_fingerprint:
  assumes "undo_stack s \<noteq> []"
  shows "version_change_hash (last (undo_stack s)) \<notin> set (fingerprints (snd (undo_last_change s)))"
  using assms by (simp add: undo_fingerprints)

lemma undo_auto_mode [simp]: "auto_mode (snd (undo_last_change s)) = auto_mode s"
  by (simp add: undo_last_change_def Let_def)

lemma apply_success_version:
  assumes "fst (apply_single_change st c fr) = Inr (applied_message c)"
  shows "versions (snd (apply_single_change st c fr))
           = versions st @ [recorded st c fr (snd (apply_single_change st c fr))]
       \<and> version_change_hash (recorded st c fr (snd (apply_single_change st c fr))) = change_hash c
       \<and> version_id (recorded st c fr (snd (apply_single_change st c fr))) = fresh_version_id fr"
  using apply_single_change_effect [of st c fr] assms
  by (auto simp: applied_fields recorded_def make_version_def)

lemma propose_manual:
  assumes "\<not> auto_mode s" and "change_hash (new_change H cid t f a ov nv r) \<notin> set (fingerprints s)"
  shows "snd (propose_canvas_update H cid fr (CanvasType_value t) f (ChangeAction_value a) nv ov r s)
           = s\<lparr>pending_changes := pending_changes s @ [new_change H cid t f a ov nv r]\<rparr>"
  using assms by (simp add: propose_parsed)

lemma new_change_post_init [simp]:
  "model_post_init H (new_change H cid t f a ov nv r) = new_change H cid t f a ov nv r"
  by (rule model_post_init_hashed [OF new_change_hashed])

section \<open>The loop of a batch, id by id\<close>

lemma apply_changes_loop_append:
  "apply_changes_loop H frs pending i (xs @ ys) res s =
     (case apply_changes_loop H frs pending i xs res s of
        (Inl e, s') \<Rightarrow> (Inl e, s')
      | (Inr res', s') \<Rightarrow> apply_changes_loop H frs pending (i + length xs) ys res' s')"
proof (induction xs arbitrary: i res s)
  case Nil
  show ?case by simp
next
  case (Cons x xs)
  show ?case
  proof (cases "process_change_id H pending x (frs i) s")
    case (Pair r s1)
    show ?thesis
    proof (cases r)
      case (Inl e)
      with Pair show ?thesis by simp
    next
      case (Inr m)
      with Pair Cons.IH [of "Suc i" "res @ [m]" s1] show ?thesis
        by (simp split: prod.splits sum.splits)
    qed
  qed
qed

lemma apply_changes_loop_results:
  "apply_changes_loop H frs pending i ids res s = (Inr res', s')
     \<Longrightarrow> \<exists>ext. res' = res @ ext \<and> length ext = length ids"
proof (induction ids arbitrary: i res s)
  case Nil
  then show ?case by simp
next
  case (Cons x xs)
  show ?case
  proof (cases "process_change_id H pending x (frs i) s")
    case (Pair r s1)
    show ?thesis
    proof (cases r)
      case (Inl e)
      with Pair Cons.prems show ?thesis by simp
    next
      case (Inr m)
      with Pair Cons.prems
      have "apply_changes_loop H frs pending (Suc i) xs (res @ [m]) s1 = (Inr res', s')"
        by simp
      from Cons.IH [OF this] obtain ext where "res' = (res @ [m]) @ ext" "length ext = length xs"
        by blast
      then have "res' = res @ (m # ext) \<and> length (m # ext) = length (x # xs)" by simp
      then show ?thesis by blast
    qed
  qed
qed

lemma apply_changes_loop_append_Inr:
  "apply_changes_loop H frs pending i xs res s = (Inr res', s')
     \<Longrightarrow> apply_changes_loop H frs pending i (xs @ ys) res s
           = apply_changes_loop H frs pending (i + length xs) ys res' s'"
  by (simp add: apply_changes_loop_append)

lemma apply_changes_loop_append_Inl:
  "apply_changes_loop H frs pending i xs res s = (Inl e, s')
     \<Longrightarrow> apply_changes_loop H frs pending i (xs @ ys) res s = (Inl e, s')"
  by (simp add: apply_changes_loop_append)

lemma apply_changes_loop_step:
  assumes run: "apply_changes_loop H frs pending 0 ids [] s = (Inr results, sn)"
    and k: "k < length ids"
  shows "process_change_id H pending (ids ! k) (frs k) (state_before H frs pending ids k s)
           = (Inr (results ! k), state_before H frs pending ids (Suc k) s)"
proof -
  let ?pre = "take k ids" and ?post = "drop (Suc k) ids"
  have split: "ids = ?pre @ (ids ! k) # ?post" using k by (rule id_take_nth_drop)
  have lk: "length ?pre = k" using k by simp
  obtain r0 s0 where pre: "apply_changes_loop H frs pending 0 ?pre [] s = (r0, s0)"
    by (cases "apply_changes_loop H frs pending 0 ?pre [] s")
  have whole: "apply_changes_loop H frs pending 0 (?pre @ (ids ! k) # ?post) [] s
                 = (Inr results, sn)"
    using run split by simp
  obtain rk where r0: "r0 = Inr rk"
  proof (cases r0)
    case (Inl e)
    from apply_changes_loop_append_Inl [OF pre [unfolded Inl], of "(ids ! k) # ?post"] whole
    show ?thesis by simp
  next
    case (Inr rk)
    then show ?thesis by (rule that)
  qed
  note pre' = pre [unfolded r0]
  from apply_changes_loop_append_Inr [OF pre', of "(ids ! k) # ?post", unfolded lk add_0] whole
  have rest: "apply_changes_loop H frs pending k ((ids ! k) # ?post) rk s0 = (Inr results, sn)"
    by simp
  obtain r1 s1 where one: "process_change_id H pending (ids ! k) (frs k) s0 = (r1, s1)"
    by (cases "process_change_id H pending (ids ! k) (frs k) s0")
  from rest one obtain m where r1: "r1 = Inr m" by (cases r1) simp_all
  from rest one r1
  have tail: "apply_changes_loop H frs pending (Suc k) ?post (rk @ [m]) s1 = (Inr results, sn)"
    by simp
  from apply_changes_loop_results [OF pre'] lk have len: "length rk = k" by auto
  from apply_changes_loop_results [OF tail] obtain ext where "results = (rk @ [m]) @ ext"
    by blast
  with len have nth: "results ! k = m" by (simp add: nth_append)
  have sb: "state_before H frs pending ids k s = s0" by (simp add: state_before_def pre)
  have tk: "take (Suc k) ids = ?pre @ [ids ! k]" using k by (rule take_Suc_conv_app_nth)
  from apply_changes_loop_append_Inr [OF pre', of "[ids ! k]", unfolded lk add_0] one r1
  have "apply_changes_loop H frs pending 0 (?pre @ [ids ! k]) [] s = (Inr (rk @ [m]), s1)"
    by simp
  then have sb': "state_before H frs pending ids (Suc k) s = s1"
    unfolding state_before_def tk by simp
  from one r1 nth sb sb' show ?thesis by simp
qed

lemma apply_changes_loop_final:
  assumes run: "apply_changes_loop H frs pending 0 ids [] s = (Inr results, sn)"
  shows "length results = length ids" and "state_before H frs pending ids (length ids) s = sn"
    and "state_before H frs pending ids 0 s = s"
  using apply_changes_loop_results [OF run] run by (auto simp: state_before_def)

section \<open>Facts about the pending examples\<close>

lemma seeded_empty [simp]:
  "versions seeded = []" "undo_stack seeded = []" "redo_stack seeded = []"
  "pending_changes seeded = []" "auto_mode seeded = False" "fingerprints seeded = []"
  by (simp_all add: seeded_def get_canvas_state_def fingerprints_def)

lemma two_pending_eq:
  "two_pending H = seeded\<lparr>pending_changes := [acme_new H, students_new H]\<rparr>"
proof -
  have 1: "snd (propose_canvas_update H ''c4a11e04'' drawn ''bmc'' ''key_partners'' ''add''
               (Some ''Acme Cloud'') None ''pilot'' seeded)
            = seeded\<lparr>pending_changes := [acme_new H]\<rparr>"
    using propose_manual [of seeded H "''c4a11e04''" Bmc "''key_partners''" Add None
        "Some ''Acme Cloud''" "''pilot''" drawn]
    by (simp add: acme_new_def)
  have 2: "snd (propose_canvas_update H ''c4a11e05'' drawn ''segments'' ''pricing'' ''add''
            (Some ''Students'') None ''campus survey'' (seeded\<lparr>pending_changes := [acme_new H]\<rparr>))
            = seeded\<lparr>pending_changes := [acme_new H, students_new H]\<rparr>"
    using propose_manual [of "seeded\<lparr>pending_changes := [acme_new H]\<rparr>" H "''c4a11e05''" Segments
        "''pricing''" Add None "Some ''Students''" "''campus survey''" drawn]
    by (simp add: students_new_def)
  show ?thesis unfolding two_pending_def 1 2 ..
qed

lemma critical_pending_eq:
  "critical_pending H = seeded\<lparr>pending_changes := [critical_new H]\<rparr>"
  using propose_manual [of seeded H "''c4a11e06''" Segments "''importance''" Update
      "Some ''Technical Founders''" "Some ''critical''" "''every interviewee was one''" drawn]
  by (simp add: critical_new_def critical_pending_def)

lemma pending_reachable:
  "reachable H (two_pending H)" "reachable H (critical_pending H)"
  unfolding two_pending_def critical_pending_def seeded_def
  by (intro reach_propose reach_init)+

lemma two_pending_batch:
  "fst (apply_proposed_changes H (\<lambda>_. drawn) [''c4a11e04'', ''b0905000''] (two_pending H))
     = Inr (join_lines [applied_message (acme_new H), not_found_message ''b0905000''])"
proof -
  have v: "valid_field (seeded\<lparr>pending_changes := [acme_new H, students_new H]\<rparr>) (acme_new H)"
    by (simp add: valid_field_def acme_new_def seeded_def get_canvas_state_def get_seed_bmc_def)
  have ap: "fst (apply_single_change (seeded\<lparr>pending_changes := [acme_new H, students_new H]\<rparr>)
                  (acme_new H) drawn) = Inr (applied_message (acme_new H))"
    by (rule apply_bmc_vpc_success [OF v]) (simp add: acme_new_def)
  have ids: "change_id (acme_new H) = ''c4a11e04''" "change_id (students_new H) = ''c4a11e05''"
    by (simp_all add: acme_new_def students_new_def)
  obtain sn where a: "apply_single_change (seeded\<lparr>pending_changes := [acme_new H, students_new H]\<rparr>)
                  (acme_new H) drawn = (Inr (applied_message (acme_new H)), sn)"
    using ap by (cases "apply_single_change (seeded\<lparr>pending_changes := [acme_new H, students_new H]\<rparr>)
                  (acme_new H) drawn") simp
  have p1: "process_change_id H [acme_new H, students_new H] ''c4a11e04'' drawn
              (seeded\<lparr>pending_changes := [acme_new H, students_new H]\<rparr>)
            = (Inr (applied_message (acme_new H)), sn)"
    using a by (simp add: process_change_id_def ids) (simp add: acme_new_def)
  have p2: "process_change_id H [acme_new H, students_new H] ''b0905000'' drawn sn
            = (Inr (not_found_message ''b0905000''), sn)"
    by (simp add: process_change_id_def ids)
  show ?thesis
    by (simp add: apply_proposed_changes_def two_pending_eq batch_ids_def Let_def p1 p2)
qed

section \<open>Versions recorded in a row, undone and redone\<close>

lemma canvases_restore_cong:
  "canvases x = canvases y \<Longrightarrow> canvases (restore t snap x) = canvases (restore t snap y)"
  by (cases t; cases snap; simp add: restore_def canvases_def)

lemma canvases_fold_after_cong:
  "canvases x = canvases y \<Longrightarrow> canvases (fold restore_after ws x) = canvases (fold restore_after ws y)"
proof (induction ws arbitrary: x y)
  case Nil
  then show ?case by simp
next
  case (Cons w ws)
  from Cons.prems have "canvases (restore_after w x) = canvases (restore_after w y)"
    unfolding restore_after_def by (rule canvases_restore_cong)
  then have "canvases (fold restore_after ws (restore_after w x))
               = canvases (fold restore_after ws (restore_after w y))"
    by (rule Cons.IH)
  then show ?case by simp
qed

lemma canvases_foldr_before_cong:
  "canvases x = canvases y \<Longrightarrow> canvases (foldr restore_before ws x) = canvases (foldr restore_before ws y)"
proof (induction ws)
  case Nil
  then show ?case by simp
next
  case (Cons w ws)
  from Cons.prems have "canvases (foldr restore_before ws x) = canvases (foldr restore_before ws y)"
    by (rule Cons.IH)
  then have "canvases (restore_before w (foldr restore_before ws x))
               = canvases (restore_before w (foldr restore_before ws y))"
    unfolding restore_before_def by (rule canvases_restore_cong)
  then show ?case by simp
qed

lemma extended_refl:
  assumes "versions s' = versions s" "undo_stack s' = undo_stack s" "canvases s' = canvases s"
  shows "extended s [] s'"
  using assms by (simp add: extended_def)

lemma extended_trans:
  assumes a: "extended s xs t" and b: "extended t ys u"
  shows "extended s (xs @ ys) u"
proof -
  from a have av: "versions t = versions s @ xs" and au: "undo_stack t = undo_stack s @ xs"
    and ad: "distinct (map version_change_hash xs)"
    and ai: "set (map version_change_hash xs) \<inter> set (fingerprints s) = {}"
    and aa: "canvases (fold restore_after xs s) = canvases t"
    and ab: "canvases (foldr restore_before xs t) = canvases s"
    by (simp_all add: extended_def)
  from b have bv: "versions u = versions t @ ys" and bu: "undo_stack u = undo_stack t @ ys"
    and bd: "distinct (map version_change_hash ys)"
    and bi: "set (map version_change_hash ys) \<inter> set (fingerprints t) = {}"
    and ba: "canvases (fold restore_after ys t) = canvases u"
    and bb: "canvases (foldr restore_before ys u) = canvases t"
    by (simp_all add: extended_def)
  have ft: "fingerprints t = fingerprints s @ map version_change_hash xs"
    by (simp add: fingerprints_def av)
  have 1: "versions u = versions s @ xs @ ys" by (simp add: av bv)
  have 2: "undo_stack u = undo_stack s @ xs @ ys" by (simp add: au bu)
  have 3: "distinct (map version_change_hash (xs @ ys))"
    using ad bd bi by (auto simp: ft)
  have 4: "set (map version_change_hash (xs @ ys)) \<inter> set (fingerprints s) = {}"
    using ai bi by (auto simp: ft)
  have 5: "canvases (fold restore_after (xs @ ys) s) = canvases u"
    using canvases_fold_after_cong [OF aa, of ys] ba by simp
  have 6: "canvases (foldr restore_before (xs @ ys) u) = canvases s"
    using canvases_foldr_before_cong [OF bb, of xs] ab by simp
  show ?thesis unfolding extended_def using 1 2 3 4 5 6 by simp
qed

lemma restore_canvas_snapshot:
  "canvases (restore t (canvas_snapshot t x) y)
     = (if t = Bmc then bmc x else bmc y, if t = Vpc then vpc x else vpc y,
        if t = Segments then segments x else segments y)"
  by (cases t) (simp_all add: restore_def canvas_snapshot_def canvases_def)

lemma applied_extended:
  assumes ap: "applied t c fr t'" and g: "change_hash c \<notin> set (fingerprints t)"
  shows "extended t [recorded t c fr t'] t'"
proof -
  let ?w = "recorded t c fr t'"
  have w: "version_canvas_type ?w = canvas_type c"
     "snapshot_before ?w = canvas_snapshot (canvas_type c) t"
     "snapshot_after ?w = canvas_snapshot (canvas_type c) t'"
     "version_change_hash ?w = change_hash c"
    by (simp_all add: recorded_def make_version_def)
  from ap have cs: "canvas_type c = Bmc \<or> bmc t' = bmc t" "canvas_type c = Vpc \<or> vpc t' = vpc t"
      "canvas_type c = Segments \<or> segments t' = segments t"
    by (simp_all add: applied_def)
  have after: "canvases (restore_after ?w t) = canvases t'"
    unfolding restore_after_def w restore_canvas_snapshot using cs
    by (auto simp: canvases_def)
  have before: "canvases (restore_before ?w t') = canvases t"
    unfolding restore_before_def w restore_canvas_snapshot using cs
    by (auto simp: canvases_def)
  show ?thesis
    unfolding extended_def using applied_fields(1,2) [OF ap] g after before
    by (simp add: w)
qed

lemma canvases_update [simp]:
  "canvases (s\<lparr>versions := vs\<rparr>) = canvases s"
  "canvases (s\<lparr>pending_changes := p\<rparr>) = canvases s"
  "canvases (s\<lparr>rejected_changes := p\<rparr>) = canvases s"
  "canvases (s\<lparr>undo_stack := u\<rparr>) = canvases s"
  "canvases (s\<lparr>redo_stack := u\<rparr>) = canvases s"
  "canvases (s\<lparr>auto_mode := m\<rparr>) = canvases s"
  "canvases (s\<lparr>action_log := l\<rparr>) = canvases s"
  by (simp_all add: canvases_def)

lemma undo_top:
  assumes "undo_stack t = U @ [w]"
  shows "undo_stack (snd (undo_last_change t)) = U"
    and "redo_stack (snd (undo_last_change t)) = redo_stack t @ [w]"
    and "versions (snd (undo_last_change t))
           = filter (\<lambda>v. version_change_hash v \<noteq> version_change_hash w) (versions t)"
    and "canvases (snd (undo_last_change t)) = canvases (restore_before w t)"
proof -
  let ?t2 = "t\<lparr>undo_stack := U, redo_stack := redo_stack t @ [w],
               versions := filter (\<lambda>v. version_change_hash v \<noteq> version_change_hash w)
                             (versions t)\<rparr>"
  have eq: "snd (undo_last_change t) = restore (version_canvas_type w) (snapshot_before w) ?t2"
    using assms by (simp add: undo_last_change_def Let_def)
  show "undo_stack (snd (undo_last_change t)) = U" by (simp add: eq)
  show "redo_stack (snd (undo_last_change t)) = redo_stack t @ [w]" by (simp add: eq)
  show "versions (snd (undo_last_change t))
           = filter (\<lambda>v. version_change_hash v \<noteq> version_change_hash w) (versions t)"
    by (simp add: eq)
  have "canvases ?t2 = canvases t" by simp
  then show "canvases (snd (undo_last_change t)) = canvases (restore_before w t)"
    unfolding eq restore_before_def by (rule canvases_restore_cong)
qed

lemma redo_top:
  assumes "redo_stack t = R @ [w]" and "version_change_hash w \<notin> set (fingerprints t)"
  shows "redo_stack (snd (redo_change t)) = R"
    and "undo_stack (snd (redo_change t)) = undo_stack t @ [w]"
    and "versions (snd (redo_change t)) = versions t @ [w]"
    and "canvases (snd (redo_change t)) = canvases (restore_after w t)"
proof -
  let ?t2 = "t\<lparr>redo_stack := R, undo_stack := undo_stack t @ [w],
               versions := versions t @ [w]\<rparr>"
  have "\<not> (\<exists>v \<in> set (versions t). version_change_hash v = version_change_hash w)"
    using assms(2) by (simp add: in_log_iff)
  then have eq: "snd (redo_change t) = restore (version_canvas_type w) (snapshot_after w) ?t2"
    using assms(1) by (simp add: redo_change_def Let_def)
  show "redo_stack (snd (redo_change t)) = R" by (simp add: eq)
  show "undo_stack (snd (redo_change t)) = undo_stack t @ [w]" by (simp add: eq)
  show "versions (snd (redo_change t)) = versions t @ [w]" by (simp add: eq)
  have "canvases ?t2 = canvases t" by simp
  then show "canvases (snd (redo_change t)) = canvases (restore_after w t)"
    unfolding eq restore_after_def by (rule canvases_restore_cong)
qed

lemma undo_n_stack:
  assumes "undo_stack t = U @ ws" and "versions t = V @ ws"
    and "distinct (map version_change_hash ws)"
    and "set (map version_change_hash ws) \<inter> set (map version_change_hash V) = {}"
  shows "undo_stack (undo_n (length ws) t) = U
       \<and> versions (undo_n (length ws) t) = V
       \<and> redo_stack (undo_n (length ws) t) = redo_stack t @ rev ws
       \<and> canvases (undo_n (length ws) t) = canvases (foldr restore_before ws t)"
  using assms
proof (induction ws arbitrary: t rule: rev_induct)
  case Nil
  then show ?case by simp
next
  case (snoc w ws)
  let ?t1 = "snd (undo_last_change t)"
  from snoc.prems(1) have st: "undo_stack t = (U @ ws) @ [w]" by simp
  note top = undo_top [OF st]
  from snoc.prems(3) have dw: "version_change_hash w \<notin> set (map version_change_hash ws)"
    and d: "distinct (map version_change_hash ws)" by auto
  from snoc.prems(4) have iw: "version_change_hash w \<notin> set (map version_change_hash V)"
    and i: "set (map version_change_hash ws) \<inter> set (map version_change_hash V) = {}" by auto
  have "\<forall>v \<in> set (V @ ws). version_change_hash v \<noteq> version_change_hash w"
    using dw iw by (auto simp: image_iff)
  then have keep: "filter (\<lambda>v. version_change_hash v \<noteq> version_change_hash w) (V @ ws) = V @ ws"
    by (simp only: filter_id_conv)
  have v1: "versions ?t1 = V @ ws"
    using top(3) snoc.prems(2) keep by simp
  note ih = snoc.IH [OF top(1) v1 d i]
  have c: "canvases (foldr restore_before ws ?t1)
             = canvases (foldr restore_before ws (restore_before w t))"
    using top(4) by (rule canvases_foldr_before_cong)
  from ih c top(2) show ?case by simp
qed

lemma redo_n_stack:
  assumes "redo_stack t = R @ rev ws"
    and "distinct (map version_change_hash ws)"
    and "set (map version_change_hash ws) \<inter> set (fingerprints t) = {}"
  shows "redo_stack (redo_n (length ws) t) = R
       \<and> undo_stack (redo_n (length ws) t) = undo_stack t @ ws
       \<and> versions (redo_n (length ws) t) = versions t @ ws
       \<and> canvases (redo_n (length ws) t) = canvases (fold restore_after ws t)"
  using assms
proof (induction ws arbitrary: t)
  case Nil
  then show ?case by simp
next
  case (Cons w ws)
  let ?t1 = "snd (redo_change t)"
  from Cons.prems(1) have st: "redo_stack t = (R @ rev ws) @ [w]" by simp
  from Cons.prems(3) have g: "version_change_hash w \<notin> set (fingerprints t)" by auto
  note top = redo_top [OF st g]
  from Cons.prems(2) have dw: "version_change_hash w \<notin> set (map version_change_hash ws)"
    and d: "distinct (map version_change_hash ws)" by auto
  have f1: "fingerprints ?t1 = fingerprints t @ [version_change_hash w]"
    by (simp add: fingerprints_def top(3))
  have i: "set (map version_change_hash ws) \<inter> set (fingerprints ?t1) = {}"
    using Cons.prems(3) dw by (auto simp: f1)
  note ih = Cons.IH [OF top(1) d i]
  have c: "canvases (fold restore_after ws ?t1)
             = canvases (fold restore_after ws (restore_after w t))"
    using top(4) by (rule canvases_fold_after_cong)
  from ih c top(2,3) show ?case by simp
qed

text \<open>The round trip over the versions of an extension.\<close>

lemma extended_round_trip:
  assumes e: "extended s ws s'"
  shows "canvases (undo_n (length ws) s') = canvases s"
    and "versions (undo_n (length ws) s') = versions s"
    and "undo_stack (undo_n (length ws) s') = undo_stack s"
    and "canvases (redo_n (length ws) (undo_n (length ws) s')) = canvases s'"
    and "versions (redo_n (length ws) (undo_n (length ws) s')) = versions s'"
    and "undo_stack (redo_n (length ws) (undo_n (length ws) s')) = undo_stack s'"
    and "redo_stack (redo_n (length ws) (undo_n (length ws) s')) = redo_stack s'"
proof -
  let ?u = "undo_n (length ws) s'"
  from e have v: "versions s' = versions s @ ws" and u: "undo_stack s' = undo_stack s @ ws"
    and d: "distinct (map version_change_hash ws)"
    and i: "set (map version_change_hash ws) \<inter> set (fingerprints s) = {}"
    and a: "canvases (fold restore_after ws s) = canvases s'"
    and b: "canvases (foldr restore_before ws s') = canvases s"
    by (simp_all add: extended_def)
  from i have i': "set (map version_change_hash ws) \<inter> set (map version_change_hash (versions s)) = {}"
    by (simp add: fingerprints_def)
  note un = undo_n_stack [OF u v d i']
  from un b show 1: "canvases ?u = canvases s" by simp
  from un show 2: "versions ?u = versions s" by simp
  from un show 3: "undo_stack ?u = undo_stack s" by simp
  from un have r: "redo_stack ?u = redo_stack s' @ rev ws" by simp
  have iu: "set (map version_change_hash ws) \<inter> set (fingerprints ?u) = {}"
    using i 2 by (simp add: fingerprints_def)
  note re = redo_n_stack [OF r d iu]
  have "canvases (fold restore_after ws ?u) = canvases (fold restore_after ws s)"
    using 1 by (rule canvases_fold_after_cong)
  with re a show "canvases (redo_n (length ws) ?u) = canvases s'" by simp
  from re 2 v show "versions (redo_n (length ws) ?u) = versions s'" by simp
  from re 3 u show "undo_stack (redo_n (length ws) ?u) = undo_stack s'" by simp
  from re show "redo_stack (redo_n (length ws) ?u) = redo_stack s'" by simp
qed

lemma extended_length:
  "extended s ws s' \<Longrightarrow> length ws = length (versions s') - length (versions s)"
  by (simp add: extended_def)

lemma extended_inert:
  assumes "extended s ws t" and "versions t' = versions t" and "undo_stack t' = undo_stack t"
    and "canvases t' = canvases t"
  shows "extended s ws t'"
  using extended_trans [OF assms(1) extended_refl [OF assms(2,3,4)]] by simp

lemma propose_extended:
  "\<exists>ws. extended s ws (snd (propose_canvas_update H cid fr ct fld act nv ov rsn s))"
proof -
  let ?s' = "snd (propose_canvas_update H cid fr ct fld act nv ov rsn s)"
  from propose_effect [of H cid fr ct fld act nv ov rsn s]
  consider (same) "?s' = s"
    | (auto) t a where "change_hash (new_change H cid t fld a ov nv rsn) \<notin> set (fingerprints s)"
        "applied s (new_change H cid t fld a ov nv rsn) fr ?s'"
    | (manual) t a where
        "?s' = s\<lparr>pending_changes := pending_changes s @ [new_change H cid t fld a ov nv rsn]\<rparr>"
    by blast
  then show ?thesis
  proof cases
    case same
    have "extended s [] ?s'" by (rule extended_refl) (simp_all add: same)
    then show ?thesis ..
  next
    case auto
    from applied_extended [OF auto(2,1)] show ?thesis ..
  next
    case manual
    have "extended s [] ?s'" by (rule extended_refl) (simp_all add: manual)
    then show ?thesis ..
  qed
qed

lemma process_change_id_extended:
  assumes "\<exists>ws. extended s ws st" and "\<forall>c \<in> set pending. change_hash c = compute_hash H c"
  shows "\<exists>ws. extended s ws (snd (process_change_id H pending cid fr st))"
proof -
  from assms(1) obtain ws where e: "extended s ws st" ..
  from process_change_id_effect [of H pending cid fr st]
  consider "snd (process_change_id H pending cid fr st) = st"
    | cd where "cd \<in> set pending" "change_hash cd \<notin> set (fingerprints st)"
        "applied st (model_post_init H cd) fr (snd (process_change_id H pending cid fr st))"
    by blast
  then show ?thesis
  proof cases
    case 1
    with e show ?thesis by auto
  next
    case 2
    from 2(1) assms(2) have "model_post_init H cd = cd" by (simp add: model_post_init_hashed)
    with 2 have "applied st cd fr (snd (process_change_id H pending cid fr st))" by simp
    from extended_trans [OF e applied_extended [OF this 2(2)]] show ?thesis ..
  qed
qed

lemma apply_proposed_changes_extended:
  assumes "pending_hashed H s"
  shows "\<exists>ws. extended s ws (snd (apply_proposed_changes H frs ids s))"
proof -
  let ?l = "apply_changes_loop H frs (pending_changes s) 0 (batch_ids ids s) [] s"
  from assms have ph: "\<forall>c \<in> set (pending_changes s). change_hash c = compute_hash H c"
    by (simp add: pending_hashed_def)
  have start: "\<exists>ws. extended s ws s"
    using extended_refl [of s s] by blast
  have "\<exists>ws. extended s ws (snd ?l)"
    by (rule apply_changes_loop_keeps [where P = "\<lambda>st. \<exists>ws. extended s ws st", OF start])
       (rule process_change_id_extended [OF _ ph])
  then obtain ws where e: "extended s ws (snd ?l)" ..
  show ?thesis
  proof (cases "fst ?l")
    case (Inl err)
    then have "snd (apply_proposed_changes H frs ids s) = snd ?l"
      by (simp add: apply_proposed_changes_state)
    with e show ?thesis by auto
  next
    case (Inr results)
    then have eq: "snd (apply_proposed_changes H frs ids s)
        = (snd ?l)\<lparr>pending_changes :=
             filter (\<lambda>c. change_id c \<notin> set (batch_ids ids s)) (pending_changes s)\<rparr>"
      by (simp add: apply_proposed_changes_state)
    have "extended s ws (snd (apply_proposed_changes H frs ids s))"
      by (rule extended_inert [OF e]) (simp_all add: eq)
    then show ?thesis ..
  qed
qed

lemma applied_run_extended:
  assumes "applied_run H s0 n sn" and "reachable H s0"
  shows "reachable H sn \<and> (\<exists>ws. length ws = n \<and> extended s0 ws sn)"
  using assms
proof (induction rule: applied_run.induct)
  case run_start
  have "extended s0 [] s0" by (rule extended_refl) simp_all
  with run_start show ?case by auto
next
  case (run_propose n s1 s2 cid fr ct fld act nv ov rsn)
  then obtain ws where r: "reachable H s1" and l: "length ws = n" and e: "extended s0 ws s1"
    by auto
  from propose_extended [of s1 H cid fr ct fld act nv ov rsn] run_propose.hyps(2)
  obtain ws' where e': "extended s1 ws' s2" by auto
  have "reachable H s2" unfolding run_propose.hyps(2) using r by (rule reach_propose)
  moreover have "length (ws @ ws') = n + (length (versions s2) - length (versions s1))"
    using l extended_length [OF e'] by simp
  moreover have "extended s0 (ws @ ws') s2" using e e' by (rule extended_trans)
  ultimately show ?case by blast
next
  case (run_approve n s1 s2 frs ids)
  then obtain ws where r: "reachable H s1" and l: "length ws = n" and e: "extended s0 ws s1"
    by auto
  from r have "pending_hashed H s1" by (simp add: reachable_invariant)
  from apply_proposed_changes_extended [OF this, of frs ids] run_approve.hyps(2)
  obtain ws' where e': "extended s1 ws' s2" by auto
  have "reachable H s2" unfolding run_approve.hyps(2) using r by (rule reach_apply)
  moreover have "length (ws @ ws') = n + (length (versions s2) - length (versions s1))"
    using l extended_length [OF e'] by simp
  moreover have "extended s0 (ws @ ws') s2" using e e' by (rule extended_trans)
  ultimately show ?case by blast
next
  case (run_auto n s1 b)
  then obtain ws where r: "reachable H s1" and l: "length ws = n" and e: "extended s0 ws s1"
    by auto
  have "extended s0 ws (set_auto_mode b s1)"
    by (rule extended_inert [OF e]) (simp_all add: set_auto_mode_def)
  with l reach_auto [OF r] show ?case by blast
next
  case (run_reject n s1 cid)
  then obtain ws where r: "reachable H s1" and l: "length ws = n" and e: "extended s0 ws s1"
    by auto
  have "extended s0 ws (reject_change cid s1)"
    by (rule extended_inert [OF e]) (simp_all add: reject_change_def Let_def split: option.splits)
  with l reach_reject [OF r] show ?case by blast
next
  case (run_log n s1 oid ts an oc le)
  then obtain ws where r: "reachable H s1" and l: "length ws = n" and e: "extended s0 ws s1"
    by auto
  have "extended s0 ws (snd (log_action_outcome oid ts an oc le s1))"
    by (rule extended_inert [OF e]) (simp_all add: log_action_outcome_def)
  with l reach_log [OF r] show ?case by blast
qed

section \<open>Facts about the examples of the round trip\<close>

lemma apply_segments_add_remove_success:
  assumes "canvas_type c = Segments" and "action c \<noteq> Update"
  shows "fst (apply_single_change st c fr) = Inr (applied_message c)"
  using assms
  by (cases rule: apply_single_change_outcome [where c = c and s = st and fr = fr]) auto

lemma propose_auto_applied:
  assumes "auto_mode s"
    and "change_hash (new_change H cid t f a ov nv r) \<notin> set (fingerprints s)"
    and "fst (apply_single_change s (new_change H cid t f a ov nv r) fr)
           = Inr (applied_message (new_change H cid t f a ov nv r))"
  shows "applied s (new_change H cid t f a ov nv r) fr
           (snd (propose_canvas_update H cid fr (CanvasType_value t) f (ChangeAction_value a)
                   nv ov r s))"
proof -
  let ?c = "new_change H cid t f a ov nv r"
  have "snd (propose_canvas_update H cid fr (CanvasType_value t) f (ChangeAction_value a)
                   nv ov r s) = snd (apply_single_change s ?c fr)"
    using assms(1,2) by (simp add: propose_parsed split: prod.splits sum.splits)
  with apply_single_change_effect [of s ?c fr] assms(3) show ?thesis by auto
qed

lemma auto_seeded_reachable: "reachable H (set_auto_mode True seeded)"
  unfolding seeded_def by (intro reach_auto reach_init)

lemma acme_applied_versions: "length (versions (acme_applied H)) = 1"
proof -
  have "length (map version_change_hash (versions (acme_applied H))) = 1"
    using acme_applied_fingerprints [of H] by (simp add: fingerprints_def)
  then show ?thesis by simp
qed

lemma acme_applied_run: "applied_run H (set_auto_mode True seeded) 1 (acme_applied H)"
proof -
  have "applied_run H (set_auto_mode True seeded)
          (0 + (length (versions (acme_applied H)) - length (versions (set_auto_mode True seeded))))
          (acme_applied H)"
    by (rule run_propose [OF run_start]) (simp add: acme_applied_def)
  then show ?thesis by (simp add: acme_applied_versions set_auto_mode_def)
qed

lemma both_applied_versions: "length (versions both_applied) = 2"
proof -
  let ?H = "\<lambda>raw::string. raw"
  let ?c = "new_change ?H ''c4a11e05'' Segments ''pricing'' Add None (Some ''Students'')
              ''campus survey''"
  have g: "change_hash ?c \<notin> set (fingerprints (acme_applied ?H))"
    by (simp add: acme_applied_fingerprints new_change_hash or_default_def)
  have ok: "fst (apply_single_change (acme_applied ?H) ?c drawn) = Inr (applied_message ?c)"
    by (rule apply_segments_add_remove_success) simp_all
  from propose_auto_applied [OF acme_applied_undo_stack(3) g ok]
  have "applied (acme_applied ?H) ?c drawn both_applied"
    by (simp add: both_applied_def)
  from applied_fields(1) [OF this] show ?thesis by (simp add: acme_applied_versions)
qed

lemma both_applied_run: "applied_run (\<lambda>raw. raw) (set_auto_mode True seeded) 2 both_applied"
proof -
  let ?H = "\<lambda>raw::string. raw"
  have "applied_run ?H (set_auto_mode True seeded)
          (1 + (length (versions both_applied) - length (versions (acme_applied ?H))))
          both_applied"
    by (rule run_propose [OF acme_applied_run]) (simp add: both_applied_def)
  then show ?thesis by (simp add: acme_applied_versions both_applied_versions numeral_2_eq_2)
qed

section \<open>The separator of the hashed string\<close>

lemma CanvasType_value_no_separator: "CHR ''|'' \<notin> set (CanvasType_value t)"
  by (cases t) simp_all

lemma ChangeAction_value_no_separator: "CHR ''|'' \<notin> set (ChangeAction_value a)"
  by (cases a) simp_all

lemma split_at_first:
  "x \<notin> set xs \<Longrightarrow> x \<notin> set xs' \<Longrightarrow> xs @ x # ys = xs' @ x # ys'
     \<Longrightarrow> xs = xs' \<and> ys = ys'"
proof (induction xs arbitrary: xs')
  case Nil
  then show ?case by (cases xs') auto
next
  case (Cons a xs)
  then show ?case by (cases xs') auto
qed

lemma hash_input_separator_free:
  assumes "separator_free c1" and "separator_free c2" and "hash_input c1 = hash_input c2"
  shows "differences c1 c2 = 0"
proof -
  let ?bar = "CHR ''|''"
  let ?r2 = "\<lambda>c. ChangeAction_value (action c) @ ?bar # or_default (new_value c) []"
  let ?r1 = "\<lambda>c. field c @ ?bar # ?r2 c"
  have h: "hash_input c = CanvasType_value (canvas_type c) @ ?bar # ?r1 c" for c
    by (simp add: hash_input_def)
  from assms(3) have e: "CanvasType_value (canvas_type c1) @ ?bar # ?r1 c1
                       = CanvasType_value (canvas_type c2) @ ?bar # ?r1 c2"
    unfolding h .
  have 1: "CanvasType_value (canvas_type c1) = CanvasType_value (canvas_type c2) \<and> ?r1 c1 = ?r1 c2"
    by (rule split_at_first [OF CanvasType_value_no_separator CanvasType_value_no_separator e])
  from assms(1,2) have nf: "?bar \<notin> set (field c1)" "?bar \<notin> set (field c2)"
    by (simp_all add: separator_free_def)
  have 2: "field c1 = field c2 \<and> ?r2 c1 = ?r2 c2"
    by (rule split_at_first [OF nf conjunct2 [OF 1]])
  have 3: "ChangeAction_value (action c1) = ChangeAction_value (action c2)
         \<and> or_default (new_value c1) [] = or_default (new_value c2) []"
    by (rule split_at_first
          [OF ChangeAction_value_no_separator ChangeAction_value_no_separator conjunct2 [OF 2]])
  from 1 have t: "canvas_type c1 = canvas_type c2" by (simp only: CanvasType_value_inj)
  from 3 have a: "action c1 = action c2" by (simp only: ChangeAction_value_inj)
  from t a 2 3 show ?thesis by (simp add: differences_def)
qed

lemma separator_first_facts:
  "reachable H (separator_first H)"
  "fingerprints (separator_first H) = [H ''segments|a|add|add|y'']"
proof -
  let ?s = "set_auto_mode True seeded"
  let ?c = "new_change H ''c4a11e09'' Segments ''a|add'' Add None (Some ''y'') ''first call''"
  show "reachable H (separator_first H)"
    unfolding separator_first_def by (intro reach_propose auto_seeded_reachable)
  have a: "auto_mode ?s" by (simp add: set_auto_mode_def)
  have g: "change_hash ?c \<notin> set (fingerprints ?s)"
    by (simp add: set_auto_mode_def fingerprints_def)
  have ok: "fst (apply_single_change ?s ?c drawn) = Inr (applied_message ?c)"
    by (rule apply_segments_add_remove_success) simp_all
  from propose_auto_applied [OF a g ok]
  have "applied ?s ?c drawn (separator_first H)" by (simp add: separator_first_def)
  from applied_fingerprints [OF this]
  show "fingerprints (separator_first H) = [H ''segments|a|add|add|y'']"
    by (simp add: set_auto_mode_def fingerprints_def new_change_hash or_default_def)
qed

lemma separator_second_skipped:
  "propose_canvas_update H ''c4a11e0a'' drawn ''segments'' ''a'' ''add'' (Some ''add|y'') None
     ''second call'' (separator_first H)
   = (Inr (duplicate_message (H ''segments|a|add|add|y'')), separator_first H)"
  using propose_duplicate [of H "''c4a11e0a''" Segments "''a''" Add None "Some ''add|y''"
      "''second call''" "separator_first H" drawn]
  by (simp add: separator_first_facts new_change_hash or_default_def)

section \<open>Failures of an apply, of a proposal and of a batch\<close>

lemma update_segment_loop_raises:
  assumes "ov \<in> name ` set segs" and "SegmentImportance_parse nv = Inl e"
  shows "update_segment_loop ''importance'' ov nv segs = Raised e"
  using assms(1)
proof (induction segs)
  case Nil
  then show ?case by simp
next
  case (Cons seg rest)
  show ?case
  proof (cases "name seg = ov")
    case True
    with assms(2) show ?thesis by simp
  next
    case False
    with Cons.prems have "ov \<in> name ` set rest" by auto
    from Cons.IH [OF this] False show ?thesis by simp
  qed
qed

lemma apply_bad_importance:
  assumes "canvas_type c = Segments" and "action c = Update" and "field c = ''importance''"
    and "truthy (old_value c)" and "truthy (new_value c)"
    and "the (old_value c) \<in> name ` set (segments s)"
    and "SegmentImportance_parse (the (new_value c)) = Inl e"
  shows "apply_single_change s c fr = (Inl e, s)"
proof -
  have "update_segment_loop (field c) (the (old_value c)) (the (new_value c)) (segments s)
          = Raised e"
    unfolding assms(3) by (rule update_segment_loop_raises [OF assms(6,7)])
  with assms(1,2,4,5) show ?thesis
    by (simp add: apply_single_change_cases apply_segments_def Let_def)
qed

lemma apply_changes_loop_raises:
  assumes "apply_changes_loop H frs pending i ids res s = (Inl e, s')"
  shows "\<exists>k<length ids. \<exists>res' sk.
           apply_changes_loop H frs pending i (take k ids) res s = (Inr res', sk)
         \<and> process_change_id H pending (ids ! k) (frs (i + k)) sk = (Inl e, s')"
  using assms
proof (induction ids arbitrary: i res s)
  case Nil
  then show ?case by simp
next
  case (Cons x xs)
  show ?case
  proof (cases "process_change_id H pending x (frs i) s")
    case (Pair r s1)
    show ?thesis
    proof (cases r)
      case (Inl e1)
      with Pair Cons.prems have "e1 = e" "s1 = s'" by simp_all
      with Pair Inl
      have "0 < length (x # xs)
          \<and> apply_changes_loop H frs pending i (take 0 (x # xs)) res s = (Inr res, s)
          \<and> process_change_id H pending ((x # xs) ! 0) (frs (i + 0)) s = (Inl e, s')"
        by simp
      then show ?thesis by blast
    next
      case (Inr m)
      with Pair Cons.prems
      have "apply_changes_loop H frs pending (Suc i) xs (res @ [m]) s1 = (Inl e, s')" by simp
      from Cons.IH [OF this] obtain k res' sk where k: "k < length xs"
        and a: "apply_changes_loop H frs pending (Suc i) (take k xs) (res @ [m]) s1 = (Inr res', sk)"
        and b: "process_change_id H pending (xs ! k) (frs (Suc i + k)) sk = (Inl e, s')"
        by blast
      have 1: "Suc k < length (x # xs)" using k by simp
      have 2: "apply_changes_loop H frs pending i (take (Suc k) (x # xs)) res s = (Inr res', sk)"
        using a Pair Inr by simp
      have 3: "process_change_id H pending ((x # xs) ! Suc k) (frs (i + Suc k)) sk = (Inl e, s')"
        using b by simp
      from 1 2 3 show ?thesis by blast
    qed
  qed
qed

lemma process_change_id_raises:
  assumes "process_change_id H pending cid fr s = (Inl e, s')"
  shows "\<exists>cd. find (\<lambda>c. change_id c = cid) pending = Some cd
            \<and> change_hash cd \<notin> set (fingerprints s)
            \<and> apply_single_change s (model_post_init H cd) fr = (Inl e, s) \<and> s' = s"
proof (cases "find (\<lambda>c. change_id c = cid) pending")
  case None
  with assms show ?thesis by (simp add: process_change_id_def)
next
  case (Some cd)
  show ?thesis
  proof (cases "change_hash cd \<in> set (fingerprints s)")
    case True
    with Some assms show ?thesis by (simp add: process_change_id_def fingerprints_def)
  next
    case False
    with Some assms have a: "apply_single_change s (model_post_init H cd) fr = (Inl e, s')"
      by (simp add: process_change_id_def fingerprints_def)
    then have "fst (apply_single_change s (model_post_init H cd) fr)
                 \<noteq> Inr (applied_message (model_post_init H cd))" by simp
    from apply_failure_unchanged [OF this] a have "s' = s" by simp
    with a Some False show ?thesis by simp
  qed
qed

lemma state_before_take:
  "j \<le> k \<Longrightarrow> state_before H frs pending (take k ids) j s = state_before H frs pending ids j s"
  by (simp add: state_before_def min_def)

lemma batch_raises:
  assumes "fst (apply_proposed_changes H frs change_ids s) = Inl e"
  shows "pending_changes (snd (apply_proposed_changes H frs change_ids s)) = pending_changes s
       \<and> (\<exists>k < length (batch_ids change_ids s). \<exists>cd results.
            let ids = batch_ids change_ids s;
                before = state_before H frs (pending_changes s) ids
            in length results = k
             \<and> (\<forall>j<k. process_change_id H (pending_changes s) (ids ! j) (frs j) (before j s)
                         = (Inr (results ! j), before (Suc j) s))
             \<and> before 0 s = s
             \<and> find (\<lambda>c. change_id c = ids ! k) (pending_changes s) = Some cd
             \<and> change_hash cd \<notin> set (fingerprints (before k s))
             \<and> apply_single_change (before k s) (model_post_init H cd) (frs k)
                 = (Inl e, before k s)
             \<and> snd (apply_proposed_changes H frs change_ids s) = before k s)"
proof -
  let ?ids = "batch_ids change_ids s" and ?pend = "pending_changes s"
  let ?sb = "state_before H frs ?pend ?ids"
  obtain r sn where loop: "apply_changes_loop H frs ?pend 0 ?ids [] s = (r, sn)"
    by (cases "apply_changes_loop H frs ?pend 0 ?ids [] s")
  from assms loop have r: "r = Inl e"
    by (cases r) (simp_all add: apply_proposed_changes_def Let_def)
  note run = loop [unfolded r]
  have res: "apply_proposed_changes H frs change_ids s = (Inl e, sn)"
    using run by (simp add: apply_proposed_changes_def Let_def)
  have pend: "pending_changes sn = ?pend"
    using apply_changes_loop_pending [of H frs ?pend 0 ?ids "[]" s] run by simp
  from apply_changes_loop_raises [OF run] obtain k results sk where k: "k < length ?ids"
    and pre: "apply_changes_loop H frs ?pend 0 (take k ?ids) [] s = (Inr results, sk)"
    and one: "process_change_id H ?pend (?ids ! k) (frs k) sk = (Inl e, sn)"
    by auto
  have sk: "?sb k s = sk" by (simp add: state_before_def pre)
  from process_change_id_raises [OF one] obtain cd
    where f: "find (\<lambda>c. change_id c = ?ids ! k) ?pend = Some cd"
      and h: "change_hash cd \<notin> set (fingerprints sk)"
      and a: "apply_single_change sk (model_post_init H cd) (frs k) = (Inl e, sk)"
      and sn: "sn = sk"
    by blast
  have lk: "length (take k ?ids) = k" using k by simp
  from apply_changes_loop_final(1) [OF pre] lk have len: "length results = k" by simp
  have each: "\<forall>j<k. process_change_id H ?pend (?ids ! j) (frs j) (?sb j s)
                         = (Inr (results ! j), ?sb (Suc j) s)"
  proof (intro allI impI)
    fix j assume j: "j < k"
    then have "j < length (take k ?ids)" using lk by simp
    from apply_changes_loop_step [OF pre this] j
    show "process_change_id H ?pend (?ids ! j) (frs j) (?sb j s)
            = (Inr (results ! j), ?sb (Suc j) s)"
      by (simp add: state_before_take)
  qed
  have zero: "?sb 0 s = s" by (simp add: state_before_def)
  have p1: "pending_changes (snd (apply_proposed_changes H frs change_ids s)) = ?pend"
    using res pend by simp
  have body: "length results = k
             \<and> (\<forall>j<k. process_change_id H ?pend (?ids ! j) (frs j) (?sb j s)
                         = (Inr (results ! j), ?sb (Suc j) s))
             \<and> ?sb 0 s = s
             \<and> find (\<lambda>c. change_id c = ?ids ! k) ?pend = Some cd
             \<and> change_hash cd \<notin> set (fingerprints (?sb k s))
             \<and> apply_single_change (?sb k s) (model_post_init H cd) (frs k)
                 = (Inl e, ?sb k s)
             \<and> snd (apply_proposed_changes H frs change_ids s) = ?sb k s"
    using len each zero f h a res sn unfolding sk by simp
  from k body have "\<exists>k < length ?ids. \<exists>cd results. length results = k
             \<and> (\<forall>j<k. process_change_id H ?pend (?ids ! j) (frs j) (?sb j s)
                         = (Inr (results ! j), ?sb (Suc j) s))
             \<and> ?sb 0 s = s
             \<and> find (\<lambda>c. change_id c = ?ids ! k) ?pend = Some cd
             \<and> change_hash cd \<notin> set (fingerprints (?sb k s))
             \<and> apply_single_change (?sb k s) (model_post_init H cd) (frs k)
                 = (Inl e, ?sb k s)
             \<and> snd (apply_proposed_changes H frs change_ids s) = ?sb k s"
    by blast
  with p1 show ?thesis unfolding Let_def by simp
qed

lemma parse_failures:
  "ct \<notin> {''bmc'', ''vpc'', ''segments''}
     \<Longrightarrow> CanvasType_parse ct = Inl (ValueError ''CanvasType'' ct)"
  "act \<notin> {''add'', ''update'', ''remove''}
     \<Longrightarrow> ChangeAction_parse act = Inl (ValueError ''ChangeAction'' act)"
  "v \<notin> {''very_important'', ''fairly_important'', ''not_important''}
     \<Longrightarrow> SegmentImportance_parse v = Inl (ValueError ''SegmentImportance'' v)"
  "ct \<in> {''bmc'', ''vpc'', ''segments''} \<Longrightarrow> \<exists>t. CanvasType_parse ct = Inr t"
  by (auto simp: CanvasType_parse_def ChangeAction_parse_def SegmentImportance_parse_def)

lemma propose_failure_unchanged:
  assumes "CanvasType_parse ct = Inr t" and "ChangeAction_parse act = Inr a"
    and "fst (propose_canvas_update H cid fr ct fld act nv ov rsn s)
           \<noteq> Inr (''[Auto-applied] '' @ applied_message (new_change H cid t fld a ov nv rsn))"
    and "fst (propose_canvas_update H cid fr ct fld act nv ov rsn s)
           \<noteq> Inr (proposed_message ct fld act ov nv rsn cid)"
  shows "snd (propose_canvas_update H cid fr ct fld act nv ov rsn s) = s"
proof -
  let ?c = "new_change H cid t fld a ov nv rsn"
  have ct: "ct = CanvasType_value t" using assms(1) by (rule CanvasType_parse_Inr)
  have act: "act = ChangeAction_value a" using assms(2) by (rule ChangeAction_parse_Inr)
  note n3 = assms(3) [unfolded ct act] and n4 = assms(4) [unfolded ct act]
  show ?thesis
  proof (cases "change_hash ?c \<in> set (fingerprints s)")
    case True
    then show ?thesis unfolding ct act by (simp add: propose_parsed)
  next
    case False
    note fresh = this
    show ?thesis
    proof (cases "auto_mode s")
      case False
      with fresh n4 show ?thesis by (simp add: propose_parsed)
    next
      case True
      obtain r s1 where ap: "apply_single_change s ?c fr = (r, s1)"
        by (cases "apply_single_change s ?c fr")
      from n3 fresh True ap have "r \<noteq> Inr (applied_message ?c)"
        by (auto simp: propose_parsed split: sum.splits)
      with ap have "fst (apply_single_change s ?c fr) \<noteq> Inr (applied_message ?c)" by simp
      from apply_failure_unchanged [OF this] ap have "s1 = s" by simp
      with fresh True ap show ?thesis
        unfolding ct act by (simp add: propose_parsed split: sum.splits)
    qed
  qed
qed

lemma propose_auto_report:
  assumes "CanvasType_parse ct = Inr t" and "ChangeAction_parse act = Inr a"
    and "auto_mode s"
    and "change_hash (new_change H cid t fld a ov nv rsn) \<notin> set (fingerprints s)"
    and "fst (apply_single_change s (new_change H cid t fld a ov nv rsn) fr) = Inr m"
  shows "fst (propose_canvas_update H cid fr ct fld act nv ov rsn s) = Inr (''[Auto-applied] '' @ m)"
proof -
  have ct: "ct = CanvasType_value t" using assms(1) by (rule CanvasType_parse_Inr)
  have act: "act = ChangeAction_value a" using assms(2) by (rule ChangeAction_parse_Inr)
  obtain r s1 where ap: "apply_single_change s (new_change H cid t fld a ov nv rsn) fr = (r, s1)"
    by (cases "apply_single_change s (new_change H cid t fld a ov nv rsn) fr")
  with assms(5) have r: "r = Inr m" by simp
  from assms(3,4) ap show ?thesis
    unfolding ct act r by (simp add: propose_parsed)
qed

lemma students_critical_pending_eq:
  "students_critical_pending
     = seeded\<lparr>pending_changes := [students_new (\<lambda>raw. raw), critical_new (\<lambda>raw. raw)]\<rparr>"
proof -
  let ?H = "\<lambda>raw::string. raw"
  have 1: "snd (propose_canvas_update ?H ''c4a11e05'' drawn ''segments'' ''pricing'' ''add''
               (Some ''Students'') None ''campus survey'' seeded)
            = seeded\<lparr>pending_changes := [students_new ?H]\<rparr>"
    using propose_manual [of seeded ?H "''c4a11e05''" Segments "''pricing''" Add None
        "Some ''Students''" "''campus survey''" drawn]
    by (simp add: students_new_def)
  have 2: "snd (propose_canvas_update ?H ''c4a11e06'' drawn ''segments'' ''importance''
            ''update'' (Some ''critical'') (Some ''Technical Founders'')
            ''every interviewee was one'' (seeded\<lparr>pending_changes := [students_new ?H]\<rparr>))
            = seeded\<lparr>pending_changes := [students_new ?H, critical_new ?H]\<rparr>"
    using propose_manual [of "seeded\<lparr>pending_changes := [students_new ?H]\<rparr>" ?H "''c4a11e06''"
        Segments "''importance''" Update "Some ''Technical Founders''" "Some ''critical''"
        "''every interviewee was one''" drawn]
    by (simp add: critical_new_def)
  show ?thesis unfolding students_critical_pending_def 1 2 ..
qed

lemma students_critical_pending_reachable: "reachable (\<lambda>raw. raw) students_critical_pending"
  unfolding students_critical_pending_def seeded_def by (intro reach_propose reach_init)

lemma students_critical_batch:
  "fst (apply_proposed_changes (\<lambda>raw. raw) (\<lambda>_. drawn) [''c4a11e05'', ''c4a11e06'']
          students_critical_pending) = Inl (ValueError ''SegmentImportance'' ''critical'')"
  "map name (segments (snd (apply_proposed_changes (\<lambda>raw. raw) (\<lambda>_. drawn)
          [''c4a11e05'', ''c4a11e06''] students_critical_pending)))
     = [''Technical Founders'', ''Accelerator Teams'', ''Students'']"
  "length (versions (snd (apply_proposed_changes (\<lambda>raw. raw) (\<lambda>_. drawn)
          [''c4a11e05'', ''c4a11e06''] students_critical_pending))) = 1"
proof -
  let ?H = "\<lambda>raw::string. raw"
  let ?pend = "[students_new ?H, critical_new ?H]"
  let ?s0 = "seeded\<lparr>pending_changes := ?pend\<rparr>"
  let ?s1 = "snd (apply_single_change ?s0 (students_new ?H) drawn)"
  have ids: "change_id (students_new ?H) = ''c4a11e05''" "change_id (critical_new ?H) = ''c4a11e06''"
    by (simp_all add: students_new_def critical_new_def)
  have ok: "fst (apply_single_change ?s0 (students_new ?H) drawn)
              = Inr (applied_message (students_new ?H))"
    by (rule apply_segments_add_remove_success) (simp_all add: students_new_def)
  with apply_single_change_effect [of ?s0 "students_new ?H" drawn]
  have ap: "applied ?s0 (students_new ?H) drawn ?s1" by simp
  have a1: "apply_single_change ?s0 (students_new ?H) drawn
              = (Inr (applied_message (students_new ?H)), ?s1)"
    using ok by (simp add: prod_eq_iff)
  have segs: "segments ?s1 = segments seeded @
            [\<lparr>segment_id = ''5e9d03cc'', name = ''Students'', description = ''pricing'',
              persona = [], importance = fairly_important\<rparr>]"
    by (simp add: students_new_def new_change_def model_post_init_def
          apply_single_change_cases apply_segments_def Let_def truthy_def
          record_version_simps seeded_def get_canvas_state_def get_seed_segments_def drawn_def)
  have names: "map name (segments ?s1) = [''Technical Founders'', ''Accelerator Teams'', ''Students'']"
    unfolding segs by (simp add: seeded_def get_canvas_state_def get_seed_segments_def)
  have fp: "fingerprints ?s1 = [''segments|pricing|add|Students'']"
    using applied_fingerprints [OF ap]
    by (simp add: fingerprints_def students_new_def new_change_hash or_default_def)
  have vs: "length (versions ?s1) = 1"
  proof -
    have "length (map version_change_hash (versions ?s1)) = 1"
      using fp by (simp add: fingerprints_def)
    then show ?thesis by simp
  qed
  have p1: "process_change_id ?H ?pend ''c4a11e05'' drawn ?s0
              = (Inr (applied_message (students_new ?H)), ?s1)"
    using a1 by (simp add: process_change_id_def ids) (simp add: students_new_def)
  have bad: "apply_single_change ?s1 (critical_new ?H) drawn
               = (Inl (ValueError ''SegmentImportance'' ''critical''), ?s1)"
  proof (rule apply_bad_importance)
    show "the (old_value (critical_new ?H)) \<in> name ` set (segments ?s1)"
    proof -
      have "''Technical Founders'' \<in> set (map name (segments ?s1))"
        unfolding names by simp
      then show ?thesis by (simp add: critical_new_def)
    qed
    show "SegmentImportance_parse (the (new_value (critical_new ?H)))
            = Inl (ValueError ''SegmentImportance'' ''critical'')"
      by (simp add: critical_new_def SegmentImportance_parse_def)
  qed (simp_all add: critical_new_def truthy_def)
  have nh: "change_hash (critical_new ?H) \<notin> set (map version_change_hash (versions ?s1))"
    using fp by (simp add: fingerprints_def critical_new_def new_change_hash or_default_def)
  have p2: "process_change_id ?H ?pend ''c4a11e06'' drawn ?s1
              = (Inl (ValueError ''SegmentImportance'' ''critical''), ?s1)"
    using bad nh by (simp add: process_change_id_def ids) (simp add: critical_new_def)
  have r: "apply_proposed_changes ?H (\<lambda>_. drawn) [''c4a11e05'', ''c4a11e06'']
             students_critical_pending
           = (Inl (ValueError ''SegmentImportance'' ''critical''), ?s1)"
    by (simp add: apply_proposed_changes_def students_critical_pending_eq batch_ids_def Let_def
          p1 p2)
  show "fst (apply_proposed_changes ?H (\<lambda>_. drawn) [''c4a11e05'', ''c4a11e06'']
          students_critical_pending) = Inl (ValueError ''SegmentImportance'' ''critical'')"
    by (simp add: r)
  show "map name (segments (snd (apply_proposed_changes ?H (\<lambda>_. drawn)
          [''c4a11e05'', ''c4a11e06''] students_critical_pending)))
     = [''Technical Founders'', ''Accelerator Teams'', ''Students'']"
    unfolding r snd_conv by (rule names)
  show "length (versions (snd (apply_proposed_changes ?H (\<lambda>_. drawn)
          [''c4a11e05'', ''c4a11e06''] students_critical_pending))) = 1"
    unfolding r snd_conv by (rule vs)
qed

section \<open>C1: the version log never holds a fingerprint twice\<close>

text \<open>
  Claim C1. For every thread state reachable by any sequence of the store's operations,
  the version log never contains two versions with the same fingerprint: the list of the
  log's fingerprints is distinct. The proposal and the approval skip a change whose
  fingerprint is already in the log, and redo appends a version only if its fingerprint
  is not there.
\<close>

theorem C1_log_fingerprints_distinct:
  assumes "reachable H s"
  shows "distinct (fingerprints s)
   \<and> (\<forall>cid fr t f a nv ov r.
         change_hash (new_change H cid t f a ov nv r) \<in> set (fingerprints s) \<longrightarrow>
         propose_canvas_update H cid fr (CanvasType_value t) f (ChangeAction_value a) nv ov r s
           = (Inr (duplicate_message (change_hash (new_change H cid t f a ov nv r))), s))
   \<and> (\<forall>pending cid fr cd.
         find (\<lambda>c. change_id c = cid) pending = Some cd
           \<and> change_hash cd \<in> set (fingerprints s) \<longrightarrow>
         process_change_id H pending cid fr s = (Inr (already_applied_message cid), s))
   \<and> (redo_stack s \<noteq> [] \<and> version_change_hash (last (redo_stack s)) \<in> set (fingerprints s)
        \<longrightarrow> versions (snd (redo_change s)) = versions s)"
proof -
  have 1: "distinct (fingerprints s)" using assms by (simp add: reachable_invariant)
  have 2: "\<forall>cid fr t f a nv ov r.
         change_hash (new_change H cid t f a ov nv r) \<in> set (fingerprints s) \<longrightarrow>
         propose_canvas_update H cid fr (CanvasType_value t) f (ChangeAction_value a) nv ov r s
           = (Inr (duplicate_message (change_hash (new_change H cid t f a ov nv r))), s)"
    by (simp add: propose_duplicate)
  have 3: "\<forall>pending cid fr cd.
         find (\<lambda>c. change_id c = cid) pending = Some cd
           \<and> change_hash cd \<in> set (fingerprints s) \<longrightarrow>
         process_change_id H pending cid fr s = (Inr (already_applied_message cid), s)"
    by (simp add: process_change_id_def fingerprints_def)
  have 4: "redo_stack s \<noteq> [] \<and> version_change_hash (last (redo_stack s)) \<in> set (fingerprints s)
        \<longrightarrow> versions (snd (redo_change s)) = versions s"
    by (simp add: redo_change_def Let_def in_log_iff)
  show ?thesis by (rule conjI [OF 1 conjI [OF 2 conjI [OF 3 4]]])
qed

text \<open>The seeded thread after auto mode was switched on and one proposal was applied.\<close>

theorem C1_witness:
  "\<forall>H. reachable H (acme_applied H)
      \<and> fingerprints (acme_applied H) = [H ''bmc|key_partners|add|Acme Cloud'']
      \<and> distinct (fingerprints (acme_applied H))"
proof
  fix H
  have d: "distinct (fingerprints (acme_applied H))"
    using C1_log_fingerprints_distinct [OF acme_applied_reachable [of H]] by blast
  show "reachable H (acme_applied H)
      \<and> fingerprints (acme_applied H) = [H ''bmc|key_partners|add|Acme Cloud'']
      \<and> distinct (fingerprints (acme_applied H))"
    by (rule conjI [OF acme_applied_reachable conjI [OF acme_applied_fingerprints d]])
qed

section \<open>C2: undo N times, then redo N times\<close>

text \<open>
  Claim C2. For every sequence of N successfully applied changes on a thread (a run of
  proposals and approvals that appends N versions to the log, from a reachable state),
  calling undo N times and then redo N times restores the content of each canvas to its
  state after the applies, and restores the fingerprints of the version log, as a list
  and so as a set, to what they were before the undo sequence. Between the two, after
  the N undos, the canvases and the log's fingerprints are those from before the run.
\<close>

theorem C2_undo_all_then_redo_all:
  assumes "reachable H s0" and "applied_run H s0 n sn"
  shows "let u = undo_n n sn; s' = redo_n n u
         in bmc s' = bmc sn \<and> vpc s' = vpc sn \<and> segments s' = segments sn
          \<and> set (fingerprints s') = set (fingerprints sn)
          \<and> fingerprints s' = fingerprints sn
          \<and> bmc u = bmc s0 \<and> vpc u = vpc s0 \<and> segments u = segments s0
          \<and> fingerprints u = fingerprints s0"
proof -
  from applied_run_extended [OF assms(2,1)]
  obtain ws where l: "length ws = n" and e: "extended s0 ws sn" by auto
  note rt = extended_round_trip [OF e, unfolded l]
  from rt(4) have 1: "bmc (redo_n n (undo_n n sn)) = bmc sn"
    "vpc (redo_n n (undo_n n sn)) = vpc sn" "segments (redo_n n (undo_n n sn)) = segments sn"
    by (simp_all add: canvases_def)
  from rt(5) have 2: "fingerprints (redo_n n (undo_n n sn)) = fingerprints sn"
    by (simp add: fingerprints_def)
  from rt(1) have 3: "bmc (undo_n n sn) = bmc s0" "vpc (undo_n n sn) = vpc s0"
    "segments (undo_n n sn) = segments s0"
    by (simp_all add: canvases_def)
  from rt(2) have 4: "fingerprints (undo_n n sn) = fingerprints s0"
    by (simp add: fingerprints_def)
  show ?thesis unfolding Let_def using 1 2 3 4 by simp
qed

text \<open>
  One change auto-applied on the seeded thread, for every hash; and two changes, to the
  BMC and to the segments, under a hash that separates them.
\<close>

theorem C2_witness:
  "(\<forall>H. reachable H (set_auto_mode True seeded)
       \<and> applied_run H (set_auto_mode True seeded) 1 (acme_applied H)
       \<and> (let u = undo_n 1 (acme_applied H); s' = redo_n 1 u
          in bmc s' = bmc (acme_applied H) \<and> vpc s' = vpc (acme_applied H)
           \<and> segments s' = segments (acme_applied H)
           \<and> set (fingerprints s') = set (fingerprints (acme_applied H))
           \<and> fingerprints s' = fingerprints (acme_applied H)
           \<and> bmc u = bmc (set_auto_mode True seeded) \<and> vpc u = vpc (set_auto_mode True seeded)
           \<and> segments u = segments (set_auto_mode True seeded)
           \<and> fingerprints u = fingerprints (set_auto_mode True seeded)))
   \<and> reachable (\<lambda>raw. raw) (set_auto_mode True seeded)
   \<and> applied_run (\<lambda>raw. raw) (set_auto_mode True seeded) 2 both_applied
   \<and> length (versions both_applied) = 2
   \<and> (let u = undo_n 2 both_applied; s' = redo_n 2 u
       in bmc s' = bmc both_applied \<and> vpc s' = vpc both_applied
        \<and> segments s' = segments both_applied
        \<and> set (fingerprints s') = set (fingerprints both_applied)
        \<and> fingerprints s' = fingerprints both_applied
        \<and> bmc u = bmc (set_auto_mode True seeded) \<and> vpc u = vpc (set_auto_mode True seeded)
        \<and> segments u = segments (set_auto_mode True seeded)
        \<and> fingerprints u = fingerprints (set_auto_mode True seeded))"
proof -
  have one: "\<forall>H. reachable H (set_auto_mode True seeded)
       \<and> applied_run H (set_auto_mode True seeded) 1 (acme_applied H)
       \<and> (let u = undo_n 1 (acme_applied H); s' = redo_n 1 u
          in bmc s' = bmc (acme_applied H) \<and> vpc s' = vpc (acme_applied H)
           \<and> segments s' = segments (acme_applied H)
           \<and> set (fingerprints s') = set (fingerprints (acme_applied H))
           \<and> fingerprints s' = fingerprints (acme_applied H)
           \<and> bmc u = bmc (set_auto_mode True seeded) \<and> vpc u = vpc (set_auto_mode True seeded)
           \<and> segments u = segments (set_auto_mode True seeded)
           \<and> fingerprints u = fingerprints (set_auto_mode True seeded))"
  proof
    fix H
    from C2_undo_all_then_redo_all [OF auto_seeded_reachable acme_applied_run, of H]
    show "reachable H (set_auto_mode True seeded)
       \<and> applied_run H (set_auto_mode True seeded) 1 (acme_applied H)
       \<and> (let u = undo_n 1 (acme_applied H); s' = redo_n 1 u
          in bmc s' = bmc (acme_applied H) \<and> vpc s' = vpc (acme_applied H)
           \<and> segments s' = segments (acme_applied H)
           \<and> set (fingerprints s') = set (fingerprints (acme_applied H))
           \<and> fingerprints s' = fingerprints (acme_applied H)
           \<and> bmc u = bmc (set_auto_mode True seeded) \<and> vpc u = vpc (set_auto_mode True seeded)
           \<and> segments u = segments (set_auto_mode True seeded)
           \<and> fingerprints u = fingerprints (set_auto_mode True seeded))"
      by (intro conjI auto_seeded_reachable acme_applied_run)
  qed
  note two = C2_undo_all_then_redo_all [OF auto_seeded_reachable both_applied_run]
  show ?thesis
    by (rule conjI [OF one conjI [OF auto_seeded_reachable
          conjI [OF both_applied_run conjI [OF both_applied_versions two]]]])
qed

section \<open>C3: the fingerprint of a constructed change\<close>

text \<open>
  Claim C3, as amended. Constructing a change is deterministic in its fingerprint: the
  fingerprint is the hash of the string \<open>canvas_type|field|action|new_value-or-empty\<close>, so
  identical \<open>(canvas_type, field, action, new_value)\<close> always yield the same fingerprint and
  it depends neither on the id, nor on \<open>old_value\<close>, nor on \<open>reason\<close>; a missing \<open>new_value\<close>
  and the empty string count as the same \<open>new_value\<close>. Two constructions that differ in any
  of \<open>canvas_type\<close>, \<open>field\<close>, \<open>action\<close> and \<open>new_value\<close>-or-empty, and whose fields do not
  contain the separator \<open>|\<close>, hash different strings, and so do two constructions that
  differ in exactly one of the four, whatever their fields; under a hash that is
  injective they yield different fingerprints.
\<close>

theorem C3_fingerprint_is_hash_of_content:
  "change_hash (new_change H cid t f a ov nv r)
     = H (CanvasType_value t @ ''|'' @ f @ ''|'' @ ChangeAction_value a @ ''|'' @ or_default nv [])
   \<and> (differences c1 c2 = 0 \<longrightarrow> compute_hash H c1 = compute_hash H c2)
   \<and> (differences c1 c2 = 1 \<longrightarrow> hash_input c1 \<noteq> hash_input c2)
   \<and> (separator_free c1 \<and> separator_free c2 \<and> 0 < differences c1 c2
        \<longrightarrow> hash_input c1 \<noteq> hash_input c2)
   \<and> (inj H \<and> (differences c1 c2 = 1
                \<or> separator_free c1 \<and> separator_free c2 \<and> 0 < differences c1 c2)
        \<longrightarrow> compute_hash H c1 \<noteq> compute_hash H c2)"
proof -
  note 1 = new_change_hash [of H cid t f a ov nv r]
  have 2: "differences c1 c2 = 0 \<longrightarrow> compute_hash H c1 = compute_hash H c2"
    using compute_hash_no_difference [of c1 c2 H] by blast
  have 3: "differences c1 c2 = 1 \<longrightarrow> hash_input c1 \<noteq> hash_input c2"
    using hash_input_one_difference [of c1 c2] by blast
  have 4: "separator_free c1 \<and> separator_free c2 \<and> 0 < differences c1 c2
        \<longrightarrow> hash_input c1 \<noteq> hash_input c2"
    using hash_input_separator_free [of c1 c2] by auto
  have 5: "inj H \<and> (differences c1 c2 = 1
                \<or> separator_free c1 \<and> separator_free c2 \<and> 0 < differences c1 c2)
        \<longrightarrow> compute_hash H c1 \<noteq> compute_hash H c2"
    using 3 4 by (auto simp: compute_hash_def dest: injD)
  show ?thesis by (rule conjI [OF 1 conjI [OF 2 conjI [OF 3 conjI [OF 4 5]]]])
qed

text \<open>
  Two proposals of the same content with different \<open>old_value\<close> and \<open>reason\<close>, two that
  differ in the field only, and two that differ in the field and in the value.
\<close>

theorem C3_witness:
  "differences (acme ''key_partners'' None (Some ''Acme Cloud'') ''pilot'')
               (acme ''key_partners'' (Some ''AWS'') (Some ''Acme Cloud'') ''second call'') = 0
   \<and> (\<forall>H. compute_hash H (acme ''key_partners'' None (Some ''Acme Cloud'') ''pilot'')
          = compute_hash H (acme ''key_partners'' (Some ''AWS'') (Some ''Acme Cloud'') ''second call''))
   \<and> differences (acme ''key_partners'' None (Some ''Acme Cloud'') ''pilot'')
                 (acme ''key_resources'' None (Some ''Acme Cloud'') ''pilot'') = 1
   \<and> hash_input (acme ''key_partners'' None (Some ''Acme Cloud'') ''pilot'')
        \<noteq> hash_input (acme ''key_resources'' None (Some ''Acme Cloud'') ''pilot'')
   \<and> separator_free (acme ''key_partners'' None (Some ''Acme Cloud'') ''pilot'')
   \<and> separator_free (acme ''key_resources'' None (Some ''AWS'') ''pilot'')
   \<and> differences (acme ''key_partners'' None (Some ''Acme Cloud'') ''pilot'')
                 (acme ''key_resources'' None (Some ''AWS'') ''pilot'') = 2
   \<and> hash_input (acme ''key_partners'' None (Some ''Acme Cloud'') ''pilot'')
        \<noteq> hash_input (acme ''key_resources'' None (Some ''AWS'') ''pilot'')
   \<and> inj (\<lambda>raw :: string. raw)
   \<and> compute_hash (\<lambda>raw. raw) (acme ''key_partners'' None (Some ''Acme Cloud'') ''pilot'')
        \<noteq> compute_hash (\<lambda>raw. raw) (acme ''key_resources'' None (Some ''AWS'') ''pilot'')"
proof -
  let ?c1 = "acme ''key_partners'' None (Some ''Acme Cloud'') ''pilot''"
  let ?c2 = "acme ''key_partners'' (Some ''AWS'') (Some ''Acme Cloud'') ''second call''"
  let ?c3 = "acme ''key_resources'' None (Some ''Acme Cloud'') ''pilot''"
  let ?c4 = "acme ''key_resources'' None (Some ''AWS'') ''pilot''"
  have d0: "differences ?c1 ?c2 = 0" by (simp add: differences_def acme_def)
  have d1: "differences ?c1 ?c3 = 1" by (simp add: differences_def acme_def)
  have d2: "differences ?c1 ?c4 = 2" by (simp add: differences_def acme_def or_default_def)
  have f1: "separator_free ?c1" by (simp add: separator_free_def acme_def)
  have f4: "separator_free ?c4" by (simp add: separator_free_def acme_def)
  have i: "inj (\<lambda>raw :: string. raw)" by (rule injI)
  have same: "\<forall>H. compute_hash H ?c1 = compute_hash H ?c2"
    using C3_fingerprint_is_hash_of_content [of _ _ _ _ _ _ _ _ ?c1 ?c2] d0 by blast
  have diff: "hash_input ?c1 \<noteq> hash_input ?c3"
    using C3_fingerprint_is_hash_of_content [of _ _ _ _ _ _ _ _ ?c1 ?c3] d1 by blast
  note inst = C3_fingerprint_is_hash_of_content [of "\<lambda>raw. raw" _ _ _ _ _ _ _ ?c1 ?c4]
  have pos: "0 < differences ?c1 ?c4" unfolding d2 by simp
  have diff2: "hash_input ?c1 \<noteq> hash_input ?c4"
    using inst f1 f4 pos by blast
  have diff3: "compute_hash (\<lambda>raw. raw) ?c1 \<noteq> compute_hash (\<lambda>raw. raw) ?c4"
    using inst f1 f4 pos i by blast
  show ?thesis
    by (rule conjI [OF d0 conjI [OF same conjI [OF d1 conjI [OF diff conjI [OF f1
          conjI [OF f4 conjI [OF d2 conjI [OF diff2 conjI [OF i diff3]]]]]]]]])
qed

text \<open>
  The claim as stated, that two constructions differing in any of the four have different
  fingerprints, fails whatever the hash. A missing \<open>new_value\<close> and the empty string both
  hash the string \<open>bmc|key_partners|add|\<close>. And the separator is written between the parts
  as it is: the field \<open>a|add\<close> with the value \<open>y\<close> and the field \<open>a\<close> with the value \<open>add|y\<close>
  both hash \<open>segments|a|add|add|y\<close>, so that once the first is applied the proposal of the
  second is reported as a duplicate and skipped.
\<close>

theorem C3_counterexample:
  "new_value (acme ''key_partners'' None None ''pilot'')
     \<noteq> new_value (acme ''key_partners'' None (Some []) ''pilot'')
   \<and> (\<forall>H cid1 cid2.
         change_hash (new_change H cid1 Bmc ''key_partners'' Add None None ''pilot'')
       = change_hash (new_change H cid2 Bmc ''key_partners'' Add None (Some []) ''pilot''))
   \<and> (\<forall>H. compute_hash H (acme ''key_partners'' None None ''pilot'')
          = compute_hash H (acme ''key_partners'' None (Some []) ''pilot''))
   \<and> (\<forall>H cid1 cid2.
         change_hash (new_change H cid1 Segments ''a|add'' Add None (Some ''y'') ''first call'')
       = change_hash (new_change H cid2 Segments ''a'' Add None (Some ''add|y'') ''second call''))
   \<and> (\<forall>H. reachable H (separator_first H)
          \<and> fingerprints (separator_first H) = [H ''segments|a|add|add|y'']
          \<and> propose_canvas_update H ''c4a11e0a'' drawn ''segments'' ''a'' ''add''
               (Some ''add|y'') None ''second call'' (separator_first H)
             = (Inr (duplicate_message (H ''segments|a|add|add|y'')), separator_first H))"
proof -
  have 1: "new_value (acme ''key_partners'' None None ''pilot'')
     \<noteq> new_value (acme ''key_partners'' None (Some []) ''pilot'')"
    by (simp add: acme_def)
  have 2: "\<forall>H cid1 cid2.
         change_hash (new_change H cid1 Bmc ''key_partners'' Add None None ''pilot'')
       = change_hash (new_change H cid2 Bmc ''key_partners'' Add None (Some []) ''pilot'')"
    by (simp add: new_change_hash or_default_def)
  have 3: "\<forall>H. compute_hash H (acme ''key_partners'' None None ''pilot'')
          = compute_hash H (acme ''key_partners'' None (Some []) ''pilot'')"
    by (simp add: acme_def compute_hash_def hash_input_def or_default_def)
  have 4: "\<forall>H cid1 cid2.
         change_hash (new_change H cid1 Segments ''a|add'' Add None (Some ''y'') ''first call'')
       = change_hash (new_change H cid2 Segments ''a'' Add None (Some ''add|y'') ''second call'')"
    by (simp add: new_change_hash or_default_def)
  have 5: "\<forall>H. reachable H (separator_first H)
          \<and> fingerprints (separator_first H) = [H ''segments|a|add|add|y'']
          \<and> propose_canvas_update H ''c4a11e0a'' drawn ''segments'' ''a'' ''add''
               (Some ''add|y'') None ''second call'' (separator_first H)
             = (Inr (duplicate_message (H ''segments|a|add|add|y'')), separator_first H)"
    by (intro allI conjI separator_first_facts separator_second_skipped)
  show ?thesis by (rule conjI [OF 1 conjI [OF 2 conjI [OF 3 conjI [OF 4 5]]]])
qed

section \<open>C4: how failures reach the caller\<close>

text \<open>
  Claim C4, as amended. A field the canvas does not have (bmc, vpc) and a segment update
  that names no segment are returned to the caller as outcome text, after the prefix
  \<open>[Auto-applied]\<close> when a proposal in auto mode made the apply; an unknown canvas type
  cannot occur in a constructed change. A value outside an enum is raised as \<open>ValueError\<close>
  instead of being returned: a \<open>canvas_type\<close> or an \<open>action\<close> that is no member, when
  \<open>propose_canvas_update\<close> constructs the change, and an importance that is no member, when
  a segments update of the importance of an existing segment is applied. Every failure of
  a proposal or of the apply of one change, returned or raised, leaves the whole thread
  state as it was: no change is applied in part. A batch of \<open>apply_proposed_changes\<close> in
  which an apply raises stops at that id: the ids before it have been processed and what
  they applied stays applied and recorded, the failing change leaves the state those ids
  reached, and no id is removed from \<open>pending_changes\<close>.
\<close>

theorem C4_failures_leave_the_state_unchanged:
  "(\<forall>e. CanvasType_parse ct = Inl e \<longrightarrow>
      propose_canvas_update H cid fr ct fld act nv ov rsn s = (Inl e, s))
   \<and> (\<forall>t e. CanvasType_parse ct = Inr t \<and> ChangeAction_parse act = Inl e \<longrightarrow>
      propose_canvas_update H cid fr ct fld act nv ov rsn s = (Inl e, s))
   \<and> (\<forall>e. fst (propose_canvas_update H cid fr ct fld act nv ov rsn s) = Inl e \<longrightarrow>
      snd (propose_canvas_update H cid fr ct fld act nv ov rsn s) = s)
   \<and> (\<forall>e. fst (apply_single_change s c fr) = Inl e \<longrightarrow>
      snd (apply_single_change s c fr) = s
      \<and> e = ValueError ''SegmentImportance'' (the (new_value c))
      \<and> canvas_type c = Segments \<and> action c = Update \<and> field c = ''importance'')
   \<and> (\<forall>msg. fst (apply_single_change s c fr) = Inr msg \<and> msg \<noteq> applied_message c \<longrightarrow>
      snd (apply_single_change s c fr) = s
      \<and> (msg = invalid_bmc_field_message (field c) \<and> canvas_type c = Bmc
         \<or> msg = invalid_vpc_field_message (field c) \<and> canvas_type c = Vpc
         \<or> msg = segment_not_found_message (the (old_value c)) \<and> canvas_type c = Segments))
   \<and> (\<forall>t. fst (apply_single_change s c fr) \<noteq> Inr (unknown_canvas_type_message t))
   \<and> (canvas_type c = Segments \<and> action c = Update \<and> field c = ''importance''
        \<and> truthy (old_value c) \<and> truthy (new_value c)
        \<and> the (old_value c) \<in> name ` set (segments s)
        \<and> the (new_value c) \<notin> {''very_important'', ''fairly_important'', ''not_important''}
      \<longrightarrow> apply_single_change s c fr
            = (Inl (ValueError ''SegmentImportance'' (the (new_value c))), s))
   \<and> (ct \<notin> {''bmc'', ''vpc'', ''segments''} \<longrightarrow>
      propose_canvas_update H cid fr ct fld act nv ov rsn s
        = (Inl (ValueError ''CanvasType'' ct), s))
   \<and> (ct \<in> {''bmc'', ''vpc'', ''segments''} \<and> act \<notin> {''add'', ''update'', ''remove''} \<longrightarrow>
      propose_canvas_update H cid fr ct fld act nv ov rsn s
        = (Inl (ValueError ''ChangeAction'' act), s))
   \<and> (\<forall>t a. CanvasType_parse ct = Inr t \<and> ChangeAction_parse act = Inr a
        \<and> fst (propose_canvas_update H cid fr ct fld act nv ov rsn s)
             \<noteq> Inr (''[Auto-applied] '' @ applied_message (new_change H cid t fld a ov nv rsn))
        \<and> fst (propose_canvas_update H cid fr ct fld act nv ov rsn s)
             \<noteq> Inr (proposed_message ct fld act ov nv rsn cid)
      \<longrightarrow> snd (propose_canvas_update H cid fr ct fld act nv ov rsn s) = s)
   \<and> (\<forall>t a m. CanvasType_parse ct = Inr t \<and> ChangeAction_parse act = Inr a \<and> auto_mode s
        \<and> change_hash (new_change H cid t fld a ov nv rsn) \<notin> set (fingerprints s)
        \<and> fst (apply_single_change s (new_change H cid t fld a ov nv rsn) fr) = Inr m
      \<longrightarrow> fst (propose_canvas_update H cid fr ct fld act nv ov rsn s)
            = Inr (''[Auto-applied] '' @ m))
   \<and> (\<forall>e. fst (apply_proposed_changes H frs change_ids s) = Inl e \<longrightarrow>
        pending_changes (snd (apply_proposed_changes H frs change_ids s)) = pending_changes s
      \<and> (\<exists>k < length (batch_ids change_ids s). \<exists>cd results.
            let ids = batch_ids change_ids s;
                before = state_before H frs (pending_changes s) ids
            in length results = k
             \<and> (\<forall>j<k. process_change_id H (pending_changes s) (ids ! j) (frs j) (before j s)
                         = (Inr (results ! j), before (Suc j) s))
             \<and> before 0 s = s
             \<and> find (\<lambda>c. change_id c = ids ! k) (pending_changes s) = Some cd
             \<and> change_hash cd \<notin> set (fingerprints (before k s))
             \<and> apply_single_change (before k s) (model_post_init H cd) (frs k)
                 = (Inl e, before k s)
             \<and> snd (apply_proposed_changes H frs change_ids s) = before k s))"
proof -
  have c1: "\<forall>e. CanvasType_parse ct = Inl e \<longrightarrow>
      propose_canvas_update H cid fr ct fld act nv ov rsn s = (Inl e, s)"
    by (simp add: propose_canvas_update_def)
  have c2: "\<forall>t e. CanvasType_parse ct = Inr t \<and> ChangeAction_parse act = Inl e \<longrightarrow>
      propose_canvas_update H cid fr ct fld act nv ov rsn s = (Inl e, s)"
    by (simp add: propose_canvas_update_def)
  have c3: "\<forall>e. fst (propose_canvas_update H cid fr ct fld act nv ov rsn s) = Inl e \<longrightarrow>
      snd (propose_canvas_update H cid fr ct fld act nv ov rsn s) = s"
  proof (intro allI impI)
    fix e assume a: "fst (propose_canvas_update H cid fr ct fld act nv ov rsn s) = Inl e"
    show "snd (propose_canvas_update H cid fr ct fld act nv ov rsn s) = s"
    proof (cases "CanvasType_parse ct")
      case (Inl e1)
      then show ?thesis by (simp add: propose_canvas_update_def)
    next
      case (Inr t)
      note t = this
      show ?thesis
      proof (cases "ChangeAction_parse act")
        case (Inl e2)
        with t show ?thesis by (simp add: propose_canvas_update_def)
      next
        case (Inr a')
        let ?c = "new_change H cid t fld a' ov nv rsn"
        have "fst (apply_single_change s ?c fr) \<noteq> Inr (applied_message ?c)
                \<Longrightarrow> snd (apply_single_change s ?c fr) = s"
          by (rule apply_failure_unchanged)
        with a t Inr show ?thesis
          by (auto simp: propose_canvas_update_def Let_def
                split: if_splits prod.splits sum.splits)
      qed
    qed
  qed
  have c4: "\<forall>e. fst (apply_single_change s c fr) = Inl e \<longrightarrow>
      snd (apply_single_change s c fr) = s
      \<and> e = ValueError ''SegmentImportance'' (the (new_value c))
      \<and> canvas_type c = Segments \<and> action c = Update \<and> field c = ''importance''"
    by (cases rule: apply_single_change_outcome [where c = c and s = s and fr = fr]) auto
  have c5: "\<forall>msg. fst (apply_single_change s c fr) = Inr msg \<and> msg \<noteq> applied_message c \<longrightarrow>
      snd (apply_single_change s c fr) = s
      \<and> (msg = invalid_bmc_field_message (field c) \<and> canvas_type c = Bmc
         \<or> msg = invalid_vpc_field_message (field c) \<and> canvas_type c = Vpc
         \<or> msg = segment_not_found_message (the (old_value c)) \<and> canvas_type c = Segments)"
    by (cases rule: apply_single_change_outcome [where c = c and s = s and fr = fr]) auto
  have c6: "\<forall>t. fst (apply_single_change s c fr) \<noteq> Inr (unknown_canvas_type_message t)"
    by (cases rule: apply_single_change_outcome [where c = c and s = s and fr = fr])
       (auto simp: message_distinct)
  have c7: "canvas_type c = Segments \<and> action c = Update \<and> field c = ''importance''
        \<and> truthy (old_value c) \<and> truthy (new_value c)
        \<and> the (old_value c) \<in> name ` set (segments s)
        \<and> the (new_value c) \<notin> {''very_important'', ''fairly_important'', ''not_important''}
      \<longrightarrow> apply_single_change s c fr
            = (Inl (ValueError ''SegmentImportance'' (the (new_value c))), s)"
  proof (intro impI, elim conjE)
    assume "canvas_type c = Segments" "action c = Update" "field c = ''importance''"
      "truthy (old_value c)" "truthy (new_value c)"
      "the (old_value c) \<in> name ` set (segments s)"
      "the (new_value c) \<notin> {''very_important'', ''fairly_important'', ''not_important''}"
    then show "apply_single_change s c fr
            = (Inl (ValueError ''SegmentImportance'' (the (new_value c))), s)"
      by (intro apply_bad_importance parse_failures(3))
  qed
  have c8: "ct \<notin> {''bmc'', ''vpc'', ''segments''} \<longrightarrow>
      propose_canvas_update H cid fr ct fld act nv ov rsn s
        = (Inl (ValueError ''CanvasType'' ct), s)"
    using parse_failures(1) [of ct] by (auto simp: propose_canvas_update_def)
  have c9: "ct \<in> {''bmc'', ''vpc'', ''segments''} \<and> act \<notin> {''add'', ''update'', ''remove''} \<longrightarrow>
      propose_canvas_update H cid fr ct fld act nv ov rsn s
        = (Inl (ValueError ''ChangeAction'' act), s)"
    using parse_failures(2) [of act] parse_failures(4) [of ct]
    by (auto simp: propose_canvas_update_def)
  have c10: "\<forall>t a. CanvasType_parse ct = Inr t \<and> ChangeAction_parse act = Inr a
        \<and> fst (propose_canvas_update H cid fr ct fld act nv ov rsn s)
             \<noteq> Inr (''[Auto-applied] '' @ applied_message (new_change H cid t fld a ov nv rsn))
        \<and> fst (propose_canvas_update H cid fr ct fld act nv ov rsn s)
             \<noteq> Inr (proposed_message ct fld act ov nv rsn cid)
      \<longrightarrow> snd (propose_canvas_update H cid fr ct fld act nv ov rsn s) = s"
    using propose_failure_unchanged [of ct _ act _ H cid fr fld nv ov rsn s] by blast
  have c11: "\<forall>t a m. CanvasType_parse ct = Inr t \<and> ChangeAction_parse act = Inr a \<and> auto_mode s
        \<and> change_hash (new_change H cid t fld a ov nv rsn) \<notin> set (fingerprints s)
        \<and> fst (apply_single_change s (new_change H cid t fld a ov nv rsn) fr) = Inr m
      \<longrightarrow> fst (propose_canvas_update H cid fr ct fld act nv ov rsn s)
            = Inr (''[Auto-applied] '' @ m)"
    using propose_auto_report [of ct _ act _ s H cid fld ov nv rsn fr] by blast
  have c12: "\<forall>e. fst (apply_proposed_changes H frs change_ids s) = Inl e \<longrightarrow>
        pending_changes (snd (apply_proposed_changes H frs change_ids s)) = pending_changes s
      \<and> (\<exists>k < length (batch_ids change_ids s). \<exists>cd results.
            let ids = batch_ids change_ids s;
                before = state_before H frs (pending_changes s) ids
            in length results = k
             \<and> (\<forall>j<k. process_change_id H (pending_changes s) (ids ! j) (frs j) (before j s)
                         = (Inr (results ! j), before (Suc j) s))
             \<and> before 0 s = s
             \<and> find (\<lambda>c. change_id c = ids ! k) (pending_changes s) = Some cd
             \<and> change_hash cd \<notin> set (fingerprints (before k s))
             \<and> apply_single_change (before k s) (model_post_init H cd) (frs k)
                 = (Inl e, before k s)
             \<and> snd (apply_proposed_changes H frs change_ids s) = before k s)"
    by (intro allI impI) (rule batch_raises)
  show ?thesis
    by (rule conjI [OF c1 conjI [OF c2 conjI [OF c3 conjI [OF c4 conjI [OF c5 conjI [OF c6
          conjI [OF c7 conjI [OF c8 conjI [OF c9 conjI [OF c10 conjI [OF c11 c12]]]]]]]]]]])
qed

text \<open>
  A proposal for the canvas type \<open>canvas\<close> and one with the action \<open>replace\<close>, the importance
  \<open>critical\<close> for a seeded segment, the BMC field \<open>partners\<close> applied directly and proposed in
  auto mode, and a batch of two approved changes of which the second raises.
\<close>

theorem C4_witness:
  "CanvasType_parse ''canvas'' = Inl (ValueError ''CanvasType'' ''canvas'')
   \<and> (\<forall>H. propose_canvas_update H ''c4a11e07'' drawn ''canvas'' ''key_partners'' ''add''
             (Some ''Acme Cloud'') None ''pilot'' seeded
           = (Inl (ValueError ''CanvasType'' ''canvas''), seeded))
   \<and> (\<forall>H. propose_canvas_update H ''c4a11e07'' drawn ''bmc'' ''key_partners'' ''replace''
             (Some ''Acme Cloud'') None ''pilot'' seeded
           = (Inl (ValueError ''ChangeAction'' ''replace''), seeded))
   \<and> fst (apply_single_change seeded critical drawn)
        = Inl (ValueError ''SegmentImportance'' ''critical'')
   \<and> snd (apply_single_change seeded critical drawn) = seeded
   \<and> apply_single_change seeded critical drawn
        = (Inl (ValueError ''SegmentImportance'' (the (new_value critical))), seeded)
   \<and> fst (apply_single_change seeded (acme ''partners'' None (Some ''Acme Cloud'') ''pilot'') drawn)
        = Inr (invalid_bmc_field_message ''partners'')
   \<and> snd (apply_single_change seeded (acme ''partners'' None (Some ''Acme Cloud'') ''pilot'') drawn)
        = seeded
   \<and> (\<forall>H. fst (propose_canvas_update H ''c4a11e04'' drawn ''bmc'' ''partners'' ''add''
                  (Some ''Acme Cloud'') None ''pilot'' (set_auto_mode True seeded))
             = Inr (''[Auto-applied] '' @ invalid_bmc_field_message ''partners'')
          \<and> snd (propose_canvas_update H ''c4a11e04'' drawn ''bmc'' ''partners'' ''add''
                  (Some ''Acme Cloud'') None ''pilot'' (set_auto_mode True seeded))
             = set_auto_mode True seeded)
   \<and> fst (apply_proposed_changes (\<lambda>raw. raw) (\<lambda>_. drawn) [''c4a11e05'', ''c4a11e06'']
            students_critical_pending) = Inl (ValueError ''SegmentImportance'' ''critical'')
   \<and> pending_changes (snd (apply_proposed_changes (\<lambda>raw. raw) (\<lambda>_. drawn)
            [''c4a11e05'', ''c4a11e06''] students_critical_pending))
        = pending_changes students_critical_pending"
proof -
  let ?p = "acme ''partners'' None (Some ''Acme Cloud'') ''pilot''"
  have p: "CanvasType_parse ''canvas'' = Inl (ValueError ''CanvasType'' ''canvas'')"
    by (simp add: CanvasType_parse_def)
  have a: "\<forall>H. propose_canvas_update H ''c4a11e07'' drawn ''canvas'' ''key_partners'' ''add''
             (Some ''Acme Cloud'') None ''pilot'' seeded
           = (Inl (ValueError ''CanvasType'' ''canvas''), seeded)"
    by (rule allI)
       (rule C4_failures_leave_the_state_unchanged [where ct = "''canvas''", THEN conjunct1, THEN spec, THEN mp, OF p])
  have a2: "\<forall>H. propose_canvas_update H ''c4a11e07'' drawn ''bmc'' ''key_partners'' ''replace''
             (Some ''Acme Cloud'') None ''pilot'' seeded
           = (Inl (ValueError ''ChangeAction'' ''replace''), seeded)"
  proof
    fix H
    have m: "''bmc'' \<in> {''bmc'', ''vpc'', ''segments''}"
      "''replace'' \<notin> {''add'', ''update'', ''remove''}" by simp_all
    show "propose_canvas_update H ''c4a11e07'' drawn ''bmc'' ''key_partners'' ''replace''
             (Some ''Acme Cloud'') None ''pilot'' seeded
           = (Inl (ValueError ''ChangeAction'' ''replace''), seeded)"
      by (rule C4_failures_leave_the_state_unchanged [where ct = "''bmc''" and act = "''replace''",
            THEN conjunct2, THEN conjunct2, THEN conjunct2, THEN conjunct2, THEN conjunct2, THEN conjunct2, THEN conjunct2, THEN conjunct2, THEN conjunct1, THEN mp, OF conjI [OF m]])
  qed
  have b: "snd (apply_single_change seeded critical drawn) = seeded"
    by (rule C4_failures_leave_the_state_unchanged [where s = seeded and c = critical and fr = drawn,
          THEN conjunct2, THEN conjunct2, THEN conjunct2, THEN conjunct1, THEN spec, THEN mp, OF critical_raises, THEN conjunct1])
  have k: "canvas_type critical = Segments" "action critical = Update"
    "field critical = ''importance''" "truthy (old_value critical)" "truthy (new_value critical)"
    "the (old_value critical) \<in> name ` set (segments seeded)"
    "the (new_value critical) \<notin> {''very_important'', ''fairly_important'', ''not_important''}"
    by (simp_all add: critical_def truthy_def seeded_def get_canvas_state_def
          get_seed_segments_def)
  have b2: "apply_single_change seeded critical drawn
        = (Inl (ValueError ''SegmentImportance'' (the (new_value critical))), seeded)"
    by (rule C4_failures_leave_the_state_unchanged [where s = seeded and c = critical and fr = drawn,
          THEN conjunct2, THEN conjunct2, THEN conjunct2, THEN conjunct2, THEN conjunct2, THEN conjunct2, THEN conjunct1, THEN mp,
          OF conjI [OF k(1) conjI [OF k(2) conjI [OF k(3) conjI [OF k(4) conjI [OF k(5)
             conjI [OF k(6) k(7)]]]]]]])
  have f: "fst (apply_single_change seeded ?p drawn) = Inr (invalid_bmc_field_message ''partners'')"
    by (simp add: acme_def apply_single_change_cases apply_bmc_def Let_def
          seeded_def get_canvas_state_def get_seed_bmc_def)
  have ne: "invalid_bmc_field_message ''partners'' \<noteq> applied_message ?p"
    using message_distinct(1) [of ?p "''partners''"] by simp
  have c: "snd (apply_single_change seeded ?p drawn) = seeded"
    by (rule C4_failures_leave_the_state_unchanged [where s = seeded and c = ?p and fr = drawn,
          THEN conjunct2, THEN conjunct2, THEN conjunct2, THEN conjunct2, THEN conjunct1, THEN spec, THEN mp, OF conjI [OF f ne], THEN conjunct1])
  have d: "\<forall>H. fst (propose_canvas_update H ''c4a11e04'' drawn ''bmc'' ''partners'' ''add''
                  (Some ''Acme Cloud'') None ''pilot'' (set_auto_mode True seeded))
             = Inr (''[Auto-applied] '' @ invalid_bmc_field_message ''partners'')
          \<and> snd (propose_canvas_update H ''c4a11e04'' drawn ''bmc'' ''partners'' ''add''
                  (Some ''Acme Cloud'') None ''pilot'' (set_auto_mode True seeded))
             = set_auto_mode True seeded"
  proof
    fix H
    let ?s = "set_auto_mode True seeded"
    let ?c = "new_change H ''c4a11e04'' Bmc ''partners'' Add None (Some ''Acme Cloud'') ''pilot''"
    let ?r = "propose_canvas_update H ''c4a11e04'' drawn ''bmc'' ''partners'' ''add''
                  (Some ''Acme Cloud'') None ''pilot'' ?s"
    note inst = C4_failures_leave_the_state_unchanged [where ct = "''bmc''" and act = "''add''"
        and H = H and cid = "''c4a11e04''" and fr = drawn and fld = "''partners''"
        and nv = "Some ''Acme Cloud''" and ov = None and rsn = "''pilot''" and s = ?s]
    have ps: "CanvasType_parse ''bmc'' = Inr Bmc" "ChangeAction_parse ''add'' = Inr Add"
      by (simp_all add: CanvasType_parse_def ChangeAction_parse_def)
    have au: "auto_mode ?s" by (simp add: set_auto_mode_def)
    have nh: "change_hash ?c \<notin> set (fingerprints ?s)"
      by (simp add: set_auto_mode_def fingerprints_def)
    have fa: "fst (apply_single_change ?s ?c drawn) = Inr (invalid_bmc_field_message ''partners'')"
      by (simp add: apply_single_change_cases apply_bmc_def Let_def set_auto_mode_def
            seeded_def get_canvas_state_def get_seed_bmc_def)
    have 1: "fst ?r = Inr (''[Auto-applied] '' @ invalid_bmc_field_message ''partners'')"
      by (rule inst [THEN conjunct2, THEN conjunct2, THEN conjunct2, THEN conjunct2, THEN conjunct2, THEN conjunct2, THEN conjunct2, THEN conjunct2, THEN conjunct2, THEN conjunct2, THEN conjunct1, THEN spec, THEN spec, THEN spec, THEN mp,
            OF conjI [OF ps(1) conjI [OF ps(2) conjI [OF au conjI [OF nh fa]]]]])
    have n1: "fst ?r \<noteq> Inr (''[Auto-applied] '' @ applied_message ?c)"
      unfolding 1 using message_distinct(1) [of ?c "''partners''"] by simp
    have n2: "fst ?r \<noteq> Inr (proposed_message ''bmc'' ''partners'' ''add'' None
                              (Some ''Acme Cloud'') ''pilot'' ''c4a11e04'')"
      unfolding 1 using propose_auto_message_distinct(2) by simp
    have 2: "snd ?r = ?s"
      by (rule inst [THEN conjunct2, THEN conjunct2, THEN conjunct2, THEN conjunct2, THEN conjunct2, THEN conjunct2, THEN conjunct2, THEN conjunct2, THEN conjunct2, THEN conjunct1, THEN spec, THEN spec, THEN mp,
            OF conjI [OF ps(1) conjI [OF ps(2) conjI [OF n1 n2]]]])
    from 1 2 show "fst ?r = Inr (''[Auto-applied] '' @ invalid_bmc_field_message ''partners'')
                 \<and> snd ?r = ?s" ..
  qed
  note e = students_critical_batch(1)
  have g: "pending_changes (snd (apply_proposed_changes (\<lambda>raw. raw) (\<lambda>_. drawn)
            [''c4a11e05'', ''c4a11e06''] students_critical_pending))
        = pending_changes students_critical_pending"
    by (rule C4_failures_leave_the_state_unchanged [where H = "\<lambda>raw. raw" and frs = "\<lambda>_. drawn"
          and change_ids = "[''c4a11e05'', ''c4a11e06'']" and s = students_critical_pending,
          THEN conjunct2, THEN conjunct2, THEN conjunct2, THEN conjunct2, THEN conjunct2, THEN conjunct2, THEN conjunct2, THEN conjunct2, THEN conjunct2, THEN conjunct2, THEN conjunct2, THEN spec, THEN mp, OF e, THEN conjunct1])
  show ?thesis
    by (rule conjI [OF p conjI [OF a conjI [OF a2 conjI [OF critical_raises conjI [OF b
          conjI [OF b2 conjI [OF f conjI [OF c conjI [OF d conjI [OF e g]]]]]]]]]])
qed

text \<open>
  The claim as stated fails in both parts. Not every failure is returned as an outcome:
  the apply of \<open>critical\<close>, directly or through a proposal in auto mode, raises \<open>ValueError\<close>,
  and so does a proposal with a canvas type that is no member of the enum. And a failure
  can leave the state changed in part: of a batch of two approved changes, a new segment
  and the importance \<open>critical\<close>, the first is applied and recorded, then the second raises,
  and both ids are still pending.
\<close>

theorem C4_counterexample:
  "fst (apply_single_change seeded critical drawn)
     = Inl (ValueError ''SegmentImportance'' ''critical'')
   \<and> (\<forall>H. fst (propose_canvas_update H ''c4a11e06'' drawn ''segments'' ''importance'' ''update''
                  (Some ''critical'') (Some ''Technical Founders'') ''every interviewee was one''
                  (set_auto_mode True seeded))
          = Inl (ValueError ''SegmentImportance'' ''critical''))
   \<and> (\<forall>H. fst (propose_canvas_update H ''c4a11e07'' drawn ''canvas'' ''key_partners'' ''add''
                  (Some ''Acme Cloud'') None ''pilot'' seeded)
          = Inl (ValueError ''CanvasType'' ''canvas''))
   \<and> reachable (\<lambda>raw. raw) students_critical_pending
   \<and> map change_id (pending_changes students_critical_pending) = [''c4a11e05'', ''c4a11e06'']
   \<and> map name (segments students_critical_pending) = [''Technical Founders'', ''Accelerator Teams'']
   \<and> versions students_critical_pending = []
   \<and> fst (apply_proposed_changes (\<lambda>raw. raw) (\<lambda>_. drawn) [''c4a11e05'', ''c4a11e06'']
            students_critical_pending) = Inl (ValueError ''SegmentImportance'' ''critical'')
   \<and> map name (segments (snd (apply_proposed_changes (\<lambda>raw. raw) (\<lambda>_. drawn)
            [''c4a11e05'', ''c4a11e06''] students_critical_pending)))
        = [''Technical Founders'', ''Accelerator Teams'', ''Students'']
   \<and> length (versions (snd (apply_proposed_changes (\<lambda>raw. raw) (\<lambda>_. drawn)
            [''c4a11e05'', ''c4a11e06''] students_critical_pending))) = 1
   \<and> map change_id (pending_changes (snd (apply_proposed_changes (\<lambda>raw. raw) (\<lambda>_. drawn)
            [''c4a11e05'', ''c4a11e06''] students_critical_pending)))
        = [''c4a11e05'', ''c4a11e06'']"
proof -
  have 2: "\<forall>H. fst (propose_canvas_update H ''c4a11e06'' drawn ''segments'' ''importance'' ''update''
                  (Some ''critical'') (Some ''Technical Founders'') ''every interviewee was one''
                  (set_auto_mode True seeded))
          = Inl (ValueError ''SegmentImportance'' ''critical'')"
    by (simp add: propose_canvas_update_def CanvasType_parse_def ChangeAction_parse_def Let_def
          set_auto_mode_def seeded_def get_canvas_state_def get_seed_segments_def
          apply_single_change_cases apply_segments_def truthy_def SegmentImportance_parse_def)
  have 3: "\<forall>H. fst (propose_canvas_update H ''c4a11e07'' drawn ''canvas'' ''key_partners'' ''add''
                  (Some ''Acme Cloud'') None ''pilot'' seeded)
          = Inl (ValueError ''CanvasType'' ''canvas'')"
    by (simp add: propose_canvas_update_def CanvasType_parse_def)
  have 5: "map change_id (pending_changes students_critical_pending) = [''c4a11e05'', ''c4a11e06'']"
    by (simp add: students_critical_pending_eq students_new_def critical_new_def)
  have 6: "map name (segments students_critical_pending)
             = [''Technical Founders'', ''Accelerator Teams'']"
    by (simp add: students_critical_pending_eq seeded_def get_canvas_state_def
          get_seed_segments_def)
  have 7: "versions students_critical_pending = []"
    by (simp add: students_critical_pending_eq)
  have 11: "map change_id (pending_changes (snd (apply_proposed_changes (\<lambda>raw. raw) (\<lambda>_. drawn)
            [''c4a11e05'', ''c4a11e06''] students_critical_pending)))
        = [''c4a11e05'', ''c4a11e06'']"
    using batch_raises [OF students_critical_batch(1)] 5 by simp
  show ?thesis
    by (rule conjI [OF critical_raises conjI [OF 2 conjI [OF 3
          conjI [OF students_critical_pending_reachable conjI [OF 5 conjI [OF 6 conjI [OF 7
          conjI [OF students_critical_batch(1) conjI [OF students_critical_batch(2)
          conjI [OF students_critical_batch(3) 11]]]]]]]]]])
qed

section \<open>C5: a segment update that names no segment\<close>

text \<open>
  Claim C5, as amended. For every segments update with a non-empty \<open>old_value\<close> and a
  non-empty \<open>new_value\<close> whose \<open>old_value\<close> matches no existing segment's name, the apply
  fails with the segment-not-found text and the whole state is unchanged: the segments
  list is as it was and nothing is appended to the version log or pushed onto the undo
  stack.
\<close>

theorem C5_segment_update_of_unknown_name_fails:
  assumes "canvas_type c = Segments" and "action c = Update"
    and "truthy (old_value c)" and "truthy (new_value c)"
    and "old_value c \<notin> Some ` set (entry_texts s c)"
  shows "apply_single_change s c fr = (Inr (segment_not_found_message (the (old_value c))), s)"
proof -
  from assms have "the (old_value c) \<notin> name ` set (segments s)"
    by (auto simp: entry_texts_def truthy_def split: option.splits)
  then have "update_segment_loop (field c) (the (old_value c)) (the (new_value c)) (segments s)
               = Completed"
    by (simp add: update_segment_loop_Completed)
  with assms show ?thesis
    by (simp add: apply_single_change_cases apply_segments_def Let_def)
qed

text \<open>The example of the specification: no seeded segment is named \<open>Alex\<close>.\<close>

theorem C5_witness:
  "canvas_type (alex_persona (Some ''Senior engineer, 5 yrs'')) = Segments
   \<and> action (alex_persona (Some ''Senior engineer, 5 yrs'')) = Update
   \<and> truthy (old_value (alex_persona (Some ''Senior engineer, 5 yrs'')))
   \<and> truthy (new_value (alex_persona (Some ''Senior engineer, 5 yrs'')))
   \<and> old_value (alex_persona (Some ''Senior engineer, 5 yrs''))
        \<notin> Some ` set (entry_texts seeded (alex_persona (Some ''Senior engineer, 5 yrs'')))
   \<and> apply_single_change seeded (alex_persona (Some ''Senior engineer, 5 yrs'')) drawn
       = (Inr (segment_not_found_message ''Alex''), seeded)"
proof -
  let ?c = "alex_persona (Some ''Senior engineer, 5 yrs'')"
  have h1: "canvas_type ?c = Segments" and h2: "action ?c = Update"
    and h3: "truthy (old_value ?c)" and h4: "truthy (new_value ?c)"
    by (simp_all add: alex_persona_def truthy_def)
  have h5: "old_value ?c \<notin> Some ` set (entry_texts seeded ?c)"
    by (simp add: alex_persona_def entry_texts_def seeded_def get_canvas_state_def
          get_seed_segments_def image_iff)
  have ov: "the (old_value ?c) = ''Alex''" by (simp add: alex_persona_def)
  from C5_segment_update_of_unknown_name_fails [OF h1 h2 h3 h4 h5, of drawn]
  have "apply_single_change seeded ?c drawn = (Inr (segment_not_found_message ''Alex''), seeded)"
    unfolding ov .
  then show ?thesis
    by (rule conjI [OF h1 conjI [OF h2 conjI [OF h3 conjI [OF h4 conjI [OF h5]]]]])
qed

text \<open>
  The claim as stated, for every segments update whose \<open>old_value\<close> matches no segment, fails
  when the update carries no \<open>new_value\<close>: the test \<open>change.old_value and change.new_value\<close>
  skips the search, the apply reports success and a version is recorded.
\<close>

theorem C5_counterexample:
  "canvas_type (alex_persona None) = Segments
   \<and> action (alex_persona None) = Update
   \<and> old_value (alex_persona None) \<notin> Some ` set (entry_texts seeded (alex_persona None))
   \<and> fst (apply_single_change seeded (alex_persona None) drawn)
        = Inr (applied_message (alex_persona None))
   \<and> fst (apply_single_change seeded (alex_persona None) drawn)
        \<noteq> Inr (segment_not_found_message ''Alex'')
   \<and> versions (snd (apply_single_change seeded (alex_persona None) drawn))
        = [recorded seeded (alex_persona None) drawn seeded]
   \<and> undo_stack (snd (apply_single_change seeded (alex_persona None) drawn))
        = [recorded seeded (alex_persona None) drawn seeded]"
proof -
  have m: "missing_required (alex_persona None)"
    by (simp add: missing_required_def alex_persona_def truthy_def)
  have ct: "canvas_type (alex_persona None) = Segments" by (simp add: alex_persona_def)
  have eq: "apply_single_change seeded (alex_persona None) drawn
              = noop_result seeded (alex_persona None) drawn"
    by (rule noop_segments_missing [OF ct m])
  have ne: "applied_message (alex_persona None) \<noteq> segment_not_found_message ''Alex''"
    by (simp add: applied_message_def segment_not_found_message_def)
  have nil: "versions seeded = []" "undo_stack seeded = []"
    by (simp_all add: seeded_def get_canvas_state_def)
  have h5: "old_value (alex_persona None) \<notin> Some ` set (entry_texts seeded (alex_persona None))"
    by (simp add: alex_persona_def entry_texts_def seeded_def get_canvas_state_def
          get_seed_segments_def image_iff)
  have a: "action (alex_persona None) = Update" by (simp add: alex_persona_def)
  have f: "fst (noop_result seeded (alex_persona None) drawn)
             \<noteq> Inr (segment_not_found_message ''Alex'')"
    using ne by simp
  show ?thesis
    unfolding eq by (intro conjI ct a h5 f) (simp_all add: nil)
qed

section \<open>C6: a batch of approved changes\<close>

text \<open>
  Claim C6, as amended. For every batch of \<open>apply_proposed_changes\<close> that returns, each id
  is processed in the order given and yields one report: an id not found in
  \<open>pending_changes\<close> yields the not-found report and leaves the state, without aborting
  the batch; an id whose fingerprint is already in the version log yields the duplicate
  report and leaves the state; every other id is applied, on the state the ids before it
  left. After the loop every pending change whose id was part of the batch is removed
  from \<open>pending_changes\<close>, and the pending changes not named in the batch remain, in
  their order. (An empty list of ids stands for the ids of all pending changes.)
\<close>

theorem C6_batch_reports_each_id_and_prunes_pending:
  assumes "apply_proposed_changes H frs change_ids s = (Inr report, s')"
  shows "\<exists>results.
      report = join_lines results
    \<and> length results = length (batch_ids change_ids s)
    \<and> (\<forall>k < length (batch_ids change_ids s).
          let cid = batch_ids change_ids s ! k;
              sk = state_before H frs (pending_changes s) (batch_ids change_ids s) k s;
              sk' = state_before H frs (pending_changes s) (batch_ids change_ids s) (Suc k) s
          in case find (\<lambda>c. change_id c = cid) (pending_changes s) of
               None \<Rightarrow> results ! k = not_found_message cid \<and> sk' = sk
             | Some cd \<Rightarrow>
                 if change_hash cd \<in> set (fingerprints sk)
                 then results ! k = already_applied_message cid \<and> sk' = sk
                 else apply_single_change sk (model_post_init H cd) (frs k)
                        = (Inr (results ! k), sk'))
    \<and> state_before H frs (pending_changes s) (batch_ids change_ids s) 0 s = s
    \<and> s' = (state_before H frs (pending_changes s) (batch_ids change_ids s)
               (length (batch_ids change_ids s)) s)
              \<lparr>pending_changes :=
                 filter (\<lambda>c. change_id c \<notin> set (batch_ids change_ids s)) (pending_changes s)\<rparr>
    \<and> pending_changes s'
        = filter (\<lambda>c. change_id c \<notin> set (batch_ids change_ids s)) (pending_changes s)"
proof -
  let ?ids = "batch_ids change_ids s" and ?pend = "pending_changes s"
  let ?sb = "\<lambda>k. state_before H frs ?pend ?ids k s"
  obtain r sn where loop: "apply_changes_loop H frs ?pend 0 ?ids [] s = (r, sn)"
    by (cases "apply_changes_loop H frs ?pend 0 ?ids [] s")
  from assms loop obtain results where r: "r = Inr results"
    by (cases r) (simp_all add: apply_proposed_changes_def Let_def)
  note run = loop [unfolded r]
  from assms run have rep: "report = join_lines results"
    and s': "s' = sn\<lparr>pending_changes := filter (\<lambda>c. change_id c \<notin> set ?ids) ?pend\<rparr>"
    by (simp_all add: apply_proposed_changes_def Let_def)
  note fin = apply_changes_loop_final [OF run]
  have each: "\<forall>k < length ?ids.
          let cid = ?ids ! k; sk = ?sb k; sk' = ?sb (Suc k)
          in case find (\<lambda>c. change_id c = cid) ?pend of
               None \<Rightarrow> results ! k = not_found_message cid \<and> sk' = sk
             | Some cd \<Rightarrow>
                 if change_hash cd \<in> set (fingerprints sk)
                 then results ! k = already_applied_message cid \<and> sk' = sk
                 else apply_single_change sk (model_post_init H cd) (frs k)
                        = (Inr (results ! k), sk')"
  proof (intro allI impI)
    fix k assume k: "k < length ?ids"
    note step = apply_changes_loop_step [OF run k]
    show "let cid = ?ids ! k; sk = ?sb k; sk' = ?sb (Suc k)
          in case find (\<lambda>c. change_id c = cid) ?pend of
               None \<Rightarrow> results ! k = not_found_message cid \<and> sk' = sk
             | Some cd \<Rightarrow>
                 if change_hash cd \<in> set (fingerprints sk)
                 then results ! k = already_applied_message cid \<and> sk' = sk
                 else apply_single_change sk (model_post_init H cd) (frs k)
                        = (Inr (results ! k), sk')"
    proof (cases "find (\<lambda>c. change_id c = ?ids ! k) ?pend")
      case None
      with step show ?thesis by (simp add: process_change_id_def Let_def)
    next
      case (Some cd)
      show ?thesis
      proof (cases "change_hash cd \<in> set (fingerprints (?sb k))")
        case True
        with step Some show ?thesis
          by (simp add: process_change_id_def Let_def fingerprints_def)
      next
        case False
        with step Some show ?thesis
          by (simp add: process_change_id_def Let_def fingerprints_def)
      qed
    qed
  qed
  have last: "s' = (?sb (length ?ids))
              \<lparr>pending_changes := filter (\<lambda>c. change_id c \<notin> set ?ids) ?pend\<rparr>"
    using s' fin(2) by simp
  have pend: "pending_changes s' = filter (\<lambda>c. change_id c \<notin> set ?ids) ?pend"
    using s' by simp
  from rep fin(1) each fin(3) last pend show ?thesis by blast
qed

text \<open>
  The example of the specification: two changes are pending, and the batch names the
  first and an id that is not pending. The first is applied, the second reported as not
  found, and the other pending change remains.
\<close>

theorem C6_witness:
  "\<forall>H. apply_proposed_changes H (\<lambda>_. drawn) [''c4a11e04'', ''b0905000''] (two_pending H)
         = (Inr (join_lines [applied_message (acme_new H), not_found_message ''b0905000'']),
            snd (apply_proposed_changes H (\<lambda>_. drawn) [''c4a11e04'', ''b0905000''] (two_pending H)))
      \<and> pending_changes
           (snd (apply_proposed_changes H (\<lambda>_. drawn) [''c4a11e04'', ''b0905000''] (two_pending H)))
         = filter (\<lambda>c. change_id c \<notin> set (batch_ids [''c4a11e04'', ''b0905000''] (two_pending H)))
             (pending_changes (two_pending H))
      \<and> pending_changes (two_pending H) = [acme_new H, students_new H]
      \<and> pending_changes
           (snd (apply_proposed_changes H (\<lambda>_. drawn) [''c4a11e04'', ''b0905000''] (two_pending H)))
         = [students_new H]"
proof
  fix H
  let ?r = "apply_proposed_changes H (\<lambda>_. drawn) [''c4a11e04'', ''b0905000''] (two_pending H)"
  have h: "?r = (Inr (join_lines [applied_message (acme_new H), not_found_message ''b0905000'']),
                 snd ?r)"
    using two_pending_batch [of H] by (simp add: prod_eq_iff)
  from C6_batch_reports_each_id_and_prunes_pending [OF h]
  have p: "pending_changes (snd ?r)
         = filter (\<lambda>c. change_id c \<notin> set (batch_ids [''c4a11e04'', ''b0905000''] (two_pending H)))
             (pending_changes (two_pending H))"
    by blast
  have q: "pending_changes (two_pending H) = [acme_new H, students_new H]"
    by (simp add: two_pending_eq)
  have "filter (\<lambda>c. change_id c \<notin> set (batch_ids [''c4a11e04'', ''b0905000''] (two_pending H)))
             (pending_changes (two_pending H)) = [students_new H]"
    unfolding q by (simp add: batch_ids_def acme_new_def students_new_def)
  with p have r: "pending_changes (snd ?r) = [students_new H]" by simp
  show "?r = (Inr (join_lines [applied_message (acme_new H), not_found_message ''b0905000'']),
                 snd ?r)
      \<and> pending_changes (snd ?r)
         = filter (\<lambda>c. change_id c \<notin> set (batch_ids [''c4a11e04'', ''b0905000''] (two_pending H)))
             (pending_changes (two_pending H))
      \<and> pending_changes (two_pending H) = [acme_new H, students_new H]
      \<and> pending_changes (snd ?r) = [students_new H]"
    by (rule conjI [OF h conjI [OF p conjI [OF q r]]])
qed

text \<open>
  The claim as stated, for every batch, fails for a batch that raises: the pending update
  of a seeded segment's importance to \<open>critical\<close> is approved, the apply raises
  \<open>ValueError\<close>, the loop is left, and the id of the batch is still pending.
\<close>

theorem C6_counterexample:
  "\<forall>H. reachable H (critical_pending H)
      \<and> map change_id (pending_changes (critical_pending H)) = [''c4a11e06'']
      \<and> fst (apply_proposed_changes H (\<lambda>_. drawn) [''c4a11e06''] (critical_pending H))
          = Inl (ValueError ''SegmentImportance'' ''critical'')
      \<and> map change_id (pending_changes
           (snd (apply_proposed_changes H (\<lambda>_. drawn) [''c4a11e06''] (critical_pending H))))
          = [''c4a11e06'']"
proof
  fix H
  let ?s = "seeded\<lparr>pending_changes := [critical_new H]\<rparr>"
  have f: "fst (apply_single_change ?s (critical_new H) drawn)
             = Inl (ValueError ''SegmentImportance'' ''critical'')"
    by (simp add: critical_new_def apply_single_change_cases apply_segments_def Let_def truthy_def
          seeded_def get_canvas_state_def get_seed_segments_def SegmentImportance_parse_def)
  then have s: "snd (apply_single_change ?s (critical_new H) drawn) = ?s"
    by (intro apply_failure_unchanged) simp
  from f s have a: "apply_single_change ?s (critical_new H) drawn
                      = (Inl (ValueError ''SegmentImportance'' ''critical''), ?s)"
    by (simp add: prod_eq_iff)
  have id: "change_id (critical_new H) = ''c4a11e06''" by (simp add: critical_new_def)
  have p: "process_change_id H [critical_new H] ''c4a11e06'' drawn ?s
             = (Inl (ValueError ''SegmentImportance'' ''critical''), ?s)"
    using a by (simp add: process_change_id_def id) (simp add: critical_new_def)
  have r: "apply_proposed_changes H (\<lambda>_. drawn) [''c4a11e06''] (critical_pending H)
             = (Inl (ValueError ''SegmentImportance'' ''critical''), ?s)"
    by (simp add: apply_proposed_changes_def critical_pending_eq batch_ids_def Let_def p)
  show "reachable H (critical_pending H)
      \<and> map change_id (pending_changes (critical_pending H)) = [''c4a11e06'']
      \<and> fst (apply_proposed_changes H (\<lambda>_. drawn) [''c4a11e06''] (critical_pending H))
          = Inl (ValueError ''SegmentImportance'' ''critical'')
      \<and> map change_id (pending_changes
           (snd (apply_proposed_changes H (\<lambda>_. drawn) [''c4a11e06''] (critical_pending H))))
          = [''c4a11e06'']"
  proof (intro conjI)
    show "reachable H (critical_pending H)" by (rule pending_reachable)
    show "map change_id (pending_changes (critical_pending H)) = [''c4a11e06'']"
      by (simp add: critical_pending_eq id)
    show "fst (apply_proposed_changes H (\<lambda>_. drawn) [''c4a11e06''] (critical_pending H))
          = Inl (ValueError ''SegmentImportance'' ''critical'')"
      by (simp add: r)
    show "map change_id (pending_changes
           (snd (apply_proposed_changes H (\<lambda>_. drawn) [''c4a11e06''] (critical_pending H))))
          = [''c4a11e06'']"
      by (simp add: r id)
  qed
qed

section \<open>C7: undo reopens the fingerprint\<close>

text \<open>
  Claim C7. For every applied change, after undoing that change (its version is the top of
  the undo stack when undo is called), proposing a change with the same content, hence
  the same fingerprint, is not reported as a duplicate: the fingerprint has left the log.
  In auto mode the proposal is applied at once; in manual mode it is queued, and its
  approval runs the apply. When the apply succeeds it appends a new version, with the
  fingerprint and a fresh id, to the log.
\<close>

theorem C7_undo_reopens_the_fingerprint:
  assumes "undo_stack s \<noteq> []"
    and "change_hash (new_change H cid t f a ov nv r) = version_change_hash (last (undo_stack s))"
  shows "let s1 = snd (undo_last_change s);
             c = new_change H cid t f a ov nv r;
             p = propose_canvas_update H cid fr (CanvasType_value t) f (ChangeAction_value a)
                   nv ov r s1
         in change_hash c \<notin> set (fingerprints s1)
          \<and> fst p \<noteq> Inr (duplicate_message (change_hash c))
          \<and> (auto_mode s \<and> fst (apply_single_change s1 c fr) = Inr (applied_message c) \<longrightarrow>
               fst p = Inr (''[Auto-applied] '' @ applied_message c)
               \<and> versions (snd p) = versions s1 @ [recorded s1 c fr (snd p)]
               \<and> version_change_hash (recorded s1 c fr (snd p)) = change_hash c
               \<and> version_id (recorded s1 c fr (snd p)) = fresh_version_id fr)
          \<and> (\<not> auto_mode s \<longrightarrow>
               p = (Inr (proposed_message (CanvasType_value t) f (ChangeAction_value a) ov nv r cid),
                    s1\<lparr>pending_changes := pending_changes s1 @ [c]\<rparr>)
               \<and> (\<forall>fr'. find (\<lambda>x. change_id x = cid) (pending_changes (snd p)) = Some c \<longrightarrow>
                     process_change_id H (pending_changes (snd p)) cid fr' (snd p)
                       = apply_single_change (snd p) c fr'))
          \<and> (\<forall>st fr'. fst (apply_single_change st c fr') = Inr (applied_message c) \<longrightarrow>
               versions (snd (apply_single_change st c fr'))
                 = versions st @ [recorded st c fr' (snd (apply_single_change st c fr'))]
               \<and> version_change_hash (recorded st c fr' (snd (apply_single_change st c fr')))
                   = change_hash c
               \<and> version_id (recorded st c fr' (snd (apply_single_change st c fr')))
                   = fresh_version_id fr')"
proof -
  define s1 where "s1 = snd (undo_last_change s)"
  define c where "c = new_change H cid t f a ov nv r"
  define p where "p = propose_canvas_update H cid fr (CanvasType_value t) f
                        (ChangeAction_value a) nv ov r s1"
  have open_again: "change_hash c \<notin> set (fingerprints s1)"
    using undo_closes_fingerprint [OF assms(1)] assms(2) by (simp add: s1_def c_def)
  have am: "auto_mode s1 = auto_mode s" by (simp add: s1_def)
  have p_eq: "p = (if auto_mode s then
                     (case apply_single_change s1 c fr of
                        (Inl e, s') \<Rightarrow> (Inl e, s')
                      | (Inr result, s') \<Rightarrow> (Inr (''[Auto-applied] '' @ result), s'))
                   else (Inr (proposed_message (CanvasType_value t) f (ChangeAction_value a)
                                ov nv r cid),
                         s1\<lparr>pending_changes := pending_changes s1 @ [c]\<rparr>))"
    using open_again by (simp add: p_def propose_parsed c_def [symmetric] am)
  have not_dup: "fst p \<noteq> Inr (duplicate_message (change_hash c))"
    unfolding p_eq
    by (auto simp: propose_auto_message_distinct duplicate_message_def proposed_message_def
          split: prod.splits sum.splits)
  have auto: "auto_mode s \<and> fst (apply_single_change s1 c fr) = Inr (applied_message c) \<longrightarrow>
               fst p = Inr (''[Auto-applied] '' @ applied_message c)
               \<and> versions (snd p) = versions s1 @ [recorded s1 c fr (snd p)]
               \<and> version_change_hash (recorded s1 c fr (snd p)) = change_hash c
               \<and> version_id (recorded s1 c fr (snd p)) = fresh_version_id fr"
  proof
    assume h: "auto_mode s \<and> fst (apply_single_change s1 c fr) = Inr (applied_message c)"
    then have fp: "fst p = Inr (''[Auto-applied] '' @ applied_message c)"
      and sp: "snd p = snd (apply_single_change s1 c fr)"
      unfolding p_eq by (auto split: prod.splits sum.splits)
    from h apply_success_version [of s1 c fr] fp sp
    show "fst p = Inr (''[Auto-applied] '' @ applied_message c)
               \<and> versions (snd p) = versions s1 @ [recorded s1 c fr (snd p)]
               \<and> version_change_hash (recorded s1 c fr (snd p)) = change_hash c
               \<and> version_id (recorded s1 c fr (snd p)) = fresh_version_id fr"
      by simp
  qed
  have hashed: "model_post_init H c = c"
    unfolding c_def by (rule model_post_init_hashed [OF new_change_hashed])
  have manual: "\<not> auto_mode s \<longrightarrow>
               p = (Inr (proposed_message (CanvasType_value t) f (ChangeAction_value a) ov nv r cid),
                    s1\<lparr>pending_changes := pending_changes s1 @ [c]\<rparr>)
               \<and> (\<forall>fr'. find (\<lambda>x. change_id x = cid) (pending_changes (snd p)) = Some c \<longrightarrow>
                     process_change_id H (pending_changes (snd p)) cid fr' (snd p)
                       = apply_single_change (snd p) c fr')"
  proof
    assume m: "\<not> auto_mode s"
    then have pe: "p = (Inr (proposed_message (CanvasType_value t) f (ChangeAction_value a)
                                ov nv r cid),
                         s1\<lparr>pending_changes := pending_changes s1 @ [c]\<rparr>)"
      unfolding p_eq by simp
    have "fingerprints (snd p) = fingerprints s1" by (simp add: pe)
    with open_again have "change_hash c \<notin> set (map version_change_hash (versions (snd p)))"
      by (simp add: fingerprints_def)
    then have "\<forall>fr'. find (\<lambda>x. change_id x = cid) (pending_changes (snd p)) = Some c \<longrightarrow>
                     process_change_id H (pending_changes (snd p)) cid fr' (snd p)
                       = apply_single_change (snd p) c fr'"
      by (simp add: process_change_id_def hashed)
    with pe show "p = (Inr (proposed_message (CanvasType_value t) f (ChangeAction_value a) ov nv r cid),
                    s1\<lparr>pending_changes := pending_changes s1 @ [c]\<rparr>)
               \<and> (\<forall>fr'. find (\<lambda>x. change_id x = cid) (pending_changes (snd p)) = Some c \<longrightarrow>
                     process_change_id H (pending_changes (snd p)) cid fr' (snd p)
                       = apply_single_change (snd p) c fr')"
      by blast
  qed
  have new: "\<forall>st fr'. fst (apply_single_change st c fr') = Inr (applied_message c) \<longrightarrow>
               versions (snd (apply_single_change st c fr'))
                 = versions st @ [recorded st c fr' (snd (apply_single_change st c fr'))]
               \<and> version_change_hash (recorded st c fr' (snd (apply_single_change st c fr')))
                   = change_hash c
               \<and> version_id (recorded st c fr' (snd (apply_single_change st c fr')))
                   = fresh_version_id fr'"
    using apply_success_version by blast
  show ?thesis
    unfolding Let_def s1_def [symmetric] c_def [symmetric] p_def [symmetric]
    by (rule conjI [OF open_again conjI [OF not_dup conjI [OF auto conjI [OF manual new]]]])
qed

text \<open>
  The seeded thread in auto mode: \<open>Acme Cloud\<close> is added to \<open>key_partners\<close>, the change is
  undone, and the same content is proposed again with another id, \<open>old_value\<close> and reason.
  It is applied, and the log holds one new version with the fingerprint.
\<close>

theorem C7_witness:
  "\<forall>H. undo_stack (acme_applied H) \<noteq> []
      \<and> change_hash (acme_again H) = version_change_hash (last (undo_stack (acme_applied H)))
      \<and> (let s1 = snd (undo_last_change (acme_applied H));
              p = propose_canvas_update H ''c4a11e08'' drawn ''bmc'' ''key_partners'' ''add''
                    (Some ''Acme Cloud'') (Some ''AWS'') ''second pilot'' s1
          in fingerprints s1 = []
           \<and> fst p \<noteq> Inr (duplicate_message (change_hash (acme_again H)))
           \<and> fst p = Inr (''[Auto-applied] '' @ applied_message (acme_again H))
           \<and> versions (snd p) = versions s1 @ [recorded s1 (acme_again H) drawn (snd p)]
           \<and> version_change_hash (recorded s1 (acme_again H) drawn (snd p))
               = H ''bmc|key_partners|add|Acme Cloud'')"
proof
  fix H
  let ?s1 = "snd (undo_last_change (acme_applied H))"
  let ?p = "propose_canvas_update H ''c4a11e08'' drawn ''bmc'' ''key_partners'' ''add''
                    (Some ''Acme Cloud'') (Some ''AWS'') ''second pilot'' ?s1"
  have h1: "undo_stack (acme_applied H) \<noteq> []" by (rule acme_applied_undo_stack)
  have h2: "change_hash (acme_again H) = version_change_hash (last (undo_stack (acme_applied H)))"
    by (simp add: acme_again_hash acme_applied_undo_stack)
  have h2': "change_hash (new_change H ''c4a11e08'' Bmc ''key_partners'' Add (Some ''AWS'')
                (Some ''Acme Cloud'') ''second pilot'')
             = version_change_hash (last (undo_stack (acme_applied H)))"
    using h2 by (simp add: acme_again_def)
  have v: "valid_field ?s1 (acme_again H)"
    by (simp add: valid_field_def acme_again_def acme_undone get_seed_bmc_def)
  have ok: "fst (apply_single_change ?s1 (acme_again H) drawn) = Inr (applied_message (acme_again H))"
    by (rule apply_bmc_vpc_success [OF v]) (simp add: acme_again_def)
  have e: "fingerprints ?s1 = []" by (simp add: fingerprints_def acme_undone)
  note inst = C7_undo_reopens_the_fingerprint [OF h1 h2', where fr = drawn,
      unfolded Let_def acme_again_def [symmetric] CanvasType_value.simps
        ChangeAction_value.simps]
  from inst have nd: "fst ?p \<noteq> Inr (duplicate_message (change_hash (acme_again H)))"
    by blast
  from inst ok acme_applied_undo_stack(3) [of H]
  have ap: "fst ?p = Inr (''[Auto-applied] '' @ applied_message (acme_again H))
            \<and> versions (snd ?p) = versions ?s1 @ [recorded ?s1 (acme_again H) drawn (snd ?p)]
            \<and> version_change_hash (recorded ?s1 (acme_again H) drawn (snd ?p))
               = change_hash (acme_again H)
            \<and> version_id (recorded ?s1 (acme_again H) drawn (snd ?p)) = fresh_version_id drawn"
    by blast
  then have a1: "fst ?p = Inr (''[Auto-applied] '' @ applied_message (acme_again H))"
    and a2: "versions (snd ?p) = versions ?s1 @ [recorded ?s1 (acme_again H) drawn (snd ?p)]"
    and a3: "version_change_hash (recorded ?s1 (acme_again H) drawn (snd ?p))
               = H ''bmc|key_partners|add|Acme Cloud''"
    by (simp_all only: acme_again_hash)
  show "undo_stack (acme_applied H) \<noteq> []
      \<and> change_hash (acme_again H) = version_change_hash (last (undo_stack (acme_applied H)))
      \<and> (let s1 = snd (undo_last_change (acme_applied H));
              p = propose_canvas_update H ''c4a11e08'' drawn ''bmc'' ''key_partners'' ''add''
                    (Some ''Acme Cloud'') (Some ''AWS'') ''second pilot'' s1
          in fingerprints s1 = []
           \<and> fst p \<noteq> Inr (duplicate_message (change_hash (acme_again H)))
           \<and> fst p = Inr (''[Auto-applied] '' @ applied_message (acme_again H))
           \<and> versions (snd p) = versions s1 @ [recorded s1 (acme_again H) drawn (snd p)]
           \<and> version_change_hash (recorded s1 (acme_again H) drawn (snd p))
               = H ''bmc|key_partners|add|Acme Cloud'')"
    unfolding Let_def
    by (rule conjI [OF h1 conjI [OF h2 conjI [OF e conjI [OF nd conjI [OF a1 conjI [OF a2 a3]]]]]])
qed

section \<open>C8: a BMC or VPC apply that changes nothing is still recorded\<close>

text \<open>
  Claim C8. For every bmc or vpc apply with a valid field that changes nothing (an update
  whose \<open>old_value\<close> matches no entry, or an add whose \<open>new_value\<close> equals content already
  present) the canvas is left unchanged, but the operation still succeeds and appends a
  version whose before and after snapshots are identical, pushing that version onto the
  undo stack.
\<close>

theorem C8_noop_bmc_vpc_apply_is_recorded:
  assumes "canvas_type c = Bmc \<or> canvas_type c = Vpc"
    and "valid_field s c"
    and "(action c = Update \<and> old_value c \<notin> Some ` set (entry_texts s c))
       \<or> (action c = Add \<and> new_value c \<in> Some ` set (entry_texts s c))"
  shows "let r = apply_single_change s c fr; v = recorded s c fr s
         in fst r = Inr (applied_message c)
          \<and> bmc (snd r) = bmc s \<and> vpc (snd r) = vpc s \<and> segments (snd r) = segments s
          \<and> versions (snd r) = versions s @ [v]
          \<and> undo_stack (snd r) = undo_stack s @ [v]
          \<and> snapshot_before v = snapshot_after v
          \<and> version_change_hash v = change_hash c"
proof -
  have "apply_single_change s c fr = noop_result s c fr"
    using assms noop_bmc [of c s fr] noop_vpc [of c s fr] by blast
  then show ?thesis by (simp add: Let_def)
qed

text \<open>
  The example of the specification: an \<open>add\<close> to the VPC section \<open>pains\<close> of a text the
  seeded section already holds.
\<close>

theorem C8_witness:
  "(canvas_type duplicate_pain = Bmc \<or> canvas_type duplicate_pain = Vpc)
   \<and> valid_field seeded duplicate_pain
   \<and> ((action duplicate_pain = Update
         \<and> old_value duplicate_pain \<notin> Some ` set (entry_texts seeded duplicate_pain))
      \<or> (action duplicate_pain = Add
         \<and> new_value duplicate_pain \<in> Some ` set (entry_texts seeded duplicate_pain)))
   \<and> (let r = apply_single_change seeded duplicate_pain drawn;
           v = recorded seeded duplicate_pain drawn seeded
       in fst r = Inr (applied_message duplicate_pain)
        \<and> bmc (snd r) = bmc seeded \<and> vpc (snd r) = vpc seeded
        \<and> segments (snd r) = segments seeded
        \<and> versions (snd r) = versions seeded @ [v]
        \<and> undo_stack (snd r) = undo_stack seeded @ [v]
        \<and> snapshot_before v = snapshot_after v
        \<and> version_change_hash v = change_hash duplicate_pain)"
proof -
  have h1: "canvas_type duplicate_pain = Bmc \<or> canvas_type duplicate_pain = Vpc"
    by (simp add: duplicate_pain_def)
  have h2: "valid_field seeded duplicate_pain"
    by (simp add: valid_field_def duplicate_pain_def seeded_def get_canvas_state_def
          get_seed_vpc_def)
  have h3: "(action duplicate_pain = Update
         \<and> old_value duplicate_pain \<notin> Some ` set (entry_texts seeded duplicate_pain))
      \<or> (action duplicate_pain = Add
         \<and> new_value duplicate_pain \<in> Some ` set (entry_texts seeded duplicate_pain))"
    by (simp add: entry_texts_def duplicate_pain_def seeded_def get_canvas_state_def
          get_seed_vpc_def)
  from C8_noop_bmc_vpc_apply_is_recorded [OF h1 h2 h3, of drawn] h1 h2 h3
  show ?thesis by blast
qed

section \<open>C9: a field the canvas does not have\<close>

text \<open>
  Claim C9, as amended. For every bmc or vpc apply whose field is not a key of the
  targeted canvas, the apply aborts with the invalid-field text and nothing is mutated:
  the state is the one before, with no canvas change and no version recorded. (The
  segments branch does not validate the field.)
\<close>

theorem C9_unknown_bmc_or_vpc_field_is_rejected:
  assumes "canvas_type c = Bmc \<or> canvas_type c = Vpc" and "\<not> valid_field s c"
  shows "apply_single_change s c fr =
           (Inr (if canvas_type c = Bmc then invalid_bmc_field_message (field c)
                 else invalid_vpc_field_message (field c)), s)"
  using assms
  by (auto simp: apply_single_change_cases apply_bmc_def apply_vpc_def valid_field_def Let_def)

text \<open>\<open>partners\<close> is not one of the nine BMC fields.\<close>

theorem C9_witness:
  "(canvas_type (acme ''partners'' None (Some ''Acme Cloud'') ''pilot'') = Bmc
      \<or> canvas_type (acme ''partners'' None (Some ''Acme Cloud'') ''pilot'') = Vpc)
   \<and> \<not> valid_field seeded (acme ''partners'' None (Some ''Acme Cloud'') ''pilot'')
   \<and> apply_single_change seeded (acme ''partners'' None (Some ''Acme Cloud'') ''pilot'') drawn
       = (Inr (invalid_bmc_field_message ''partners''), seeded)"
proof -
  let ?c = "acme ''partners'' None (Some ''Acme Cloud'') ''pilot''"
  have h1: "canvas_type ?c = Bmc \<or> canvas_type ?c = Vpc" by (simp add: acme_def)
  have h2: "\<not> valid_field seeded ?c"
    by (simp add: valid_field_def acme_def seeded_def get_canvas_state_def get_seed_bmc_def)
  have f: "canvas_type ?c = Bmc" "field ?c = ''partners''" by (simp_all add: acme_def)
  have "apply_single_change seeded ?c drawn = (Inr (invalid_bmc_field_message ''partners''), seeded)"
    using C9_unknown_bmc_or_vpc_field_is_rejected [OF h1 h2, of drawn] unfolding f by simp
  then show ?thesis by (rule conjI [OF h1 conjI [OF h2]])
qed

text \<open>
  The claim as stated, for each of the three canvas types, fails on segments: an \<open>add\<close>
  with the unknown field \<open>pricing\<close> succeeds, appends a segment whose description is the
  field, and records a version.
\<close>

theorem C9_counterexample:
  "canvas_type students = Segments
   \<and> field students \<notin> {''name'', ''description'', ''persona'', ''importance''}
   \<and> fst (apply_single_change seeded students drawn) = Inr (applied_message students)
   \<and> segments (snd (apply_single_change seeded students drawn))
        = segments seeded @
            [\<lparr>segment_id = ''5e9d03cc'', name = ''Students'', description = ''pricing'',
              persona = [], importance = fairly_important\<rparr>]
   \<and> length (versions (snd (apply_single_change seeded students drawn))) = 1
   \<and> length (undo_stack (snd (apply_single_change seeded students drawn))) = 1"
  by (simp add: students_def apply_single_change_cases apply_segments_def Let_def truthy_def
        record_version_simps seeded_def get_canvas_state_def get_seed_segments_def drawn_def)

section \<open>C10: an apply whose required value is missing is recorded as a no-op\<close>

text \<open>
  Claim C10. For every apply, on any canvas type with a valid field, whose action-specific
  required value is missing or the empty string (add with no \<open>new_value\<close>, remove with no
  \<open>old_value\<close>, update lacking \<open>old_value\<close> or \<open>new_value\<close>) no mutation branch runs and the
  canvas is unchanged, yet the operation reports success, appends a version with identical
  before and after snapshots, clears the redo stack, pushes the version onto the undo
  stack, and consumes the fingerprint of the change: a later proposal of the same content
  and a later approval of a pending change with that fingerprint are reported as duplicates.
\<close>

theorem C10_missing_value_apply_is_recorded:
  assumes "valid_field s c" and "missing_required c"
  shows "let r = apply_single_change s c fr; v = recorded s c fr s
         in fst r = Inr (applied_message c)
          \<and> bmc (snd r) = bmc s \<and> vpc (snd r) = vpc s \<and> segments (snd r) = segments s
          \<and> versions (snd r) = versions s @ [v]
          \<and> snapshot_before v = snapshot_after v
          \<and> redo_stack (snd r) = []
          \<and> undo_stack (snd r) = undo_stack s @ [v]
          \<and> version_change_hash v = change_hash c
          \<and> change_hash c \<in> set (fingerprints (snd r))
          \<and> (\<forall>H cid fr' ov rsn. change_hash c = compute_hash H c \<longrightarrow>
                propose_canvas_update H cid fr' (CanvasType_value (canvas_type c)) (field c)
                  (ChangeAction_value (action c)) (new_value c) ov rsn (snd r)
                = (Inr (duplicate_message (change_hash c)), snd r))
          \<and> (\<forall>H frs pending i cid results c'.
                find (\<lambda>p. change_id p = cid) pending = Some c' \<and> change_hash c' = change_hash c \<longrightarrow>
                apply_changes_loop H frs pending i [cid] results (snd r)
                = (Inr (results @ [already_applied_message cid]), snd r))"
proof -
  have eq: "apply_single_change s c fr = noop_result s c fr"
    using assms noop_bmc [of c s fr] noop_vpc [of c s fr] noop_segments_missing [of c s fr]
    by (cases "canvas_type c") auto
  have mem: "change_hash c \<in> set (fingerprints (snd (noop_result s c fr)))"
    by (simp add: fingerprints_def)
  have dup: "propose_canvas_update H cid fr' (CanvasType_value (canvas_type c)) (field c)
                  (ChangeAction_value (action c)) (new_value c) ov rsn (snd (noop_result s c fr))
                = (Inr (duplicate_message (change_hash c)), snd (noop_result s c fr))"
    if "change_hash c = compute_hash H c" for H cid fr' ov rsn
  proof -
    have "change_hash (new_change H cid (canvas_type c) (field c) (action c) ov (new_value c) rsn)
            = change_hash c"
      using that by (simp add: new_change_hash_content [of c])
    with mem propose_duplicate [of H cid "canvas_type c" "field c" "action c" ov "new_value c" rsn
        "snd (noop_result s c fr)" fr']
    show ?thesis by simp
  qed
  have loop: "apply_changes_loop H frs pending i [cid] results (snd (noop_result s c fr))
                = (Inr (results @ [already_applied_message cid]), snd (noop_result s c fr))"
    if "find (\<lambda>p. change_id p = cid) pending = Some c'" "change_hash c' = change_hash c"
    for H frs pending i cid results c'
    using apply_change_loop_duplicate [OF that(1)] that(2) mem by simp
  have dup': "\<forall>H cid fr' ov rsn. change_hash c = compute_hash H c \<longrightarrow>
                propose_canvas_update H cid fr' (CanvasType_value (canvas_type c)) (field c)
                  (ChangeAction_value (action c)) (new_value c) ov rsn (snd (noop_result s c fr))
                = (Inr (duplicate_message (change_hash c)), snd (noop_result s c fr))"
    using dup by blast
  have loop': "\<forall>H frs pending i cid results c'.
                find (\<lambda>p. change_id p = cid) pending = Some c' \<and> change_hash c' = change_hash c \<longrightarrow>
                apply_changes_loop H frs pending i [cid] results (snd (noop_result s c fr))
                = (Inr (results @ [already_applied_message cid]), snd (noop_result s c fr))"
    using loop by blast
  show ?thesis
    unfolding Let_def eq
    by (intro conjI mem dup' loop') simp_all
qed

text \<open>An \<open>add\<close> to the BMC field \<open>channels\<close> that carries no \<open>new_value\<close>.\<close>

theorem C10_witness:
  "valid_field seeded add_without_value \<and> missing_required add_without_value
   \<and> (let r = apply_single_change seeded add_without_value drawn;
           v = recorded seeded add_without_value drawn seeded
       in fst r = Inr (applied_message add_without_value)
        \<and> bmc (snd r) = bmc seeded \<and> vpc (snd r) = vpc seeded
        \<and> segments (snd r) = segments seeded
        \<and> versions (snd r) = versions seeded @ [v]
        \<and> snapshot_before v = snapshot_after v
        \<and> redo_stack (snd r) = []
        \<and> undo_stack (snd r) = undo_stack seeded @ [v]
        \<and> version_change_hash v = change_hash add_without_value
        \<and> change_hash add_without_value \<in> set (fingerprints (snd r)))"
proof -
  have h1: "valid_field seeded add_without_value"
    by (simp add: valid_field_def add_without_value_def seeded_def get_canvas_state_def
          get_seed_bmc_def)
  have h2: "missing_required add_without_value"
    by (simp add: missing_required_def add_without_value_def truthy_def)
  have "let r = apply_single_change seeded add_without_value drawn;
           v = recorded seeded add_without_value drawn seeded
       in fst r = Inr (applied_message add_without_value)
        \<and> bmc (snd r) = bmc seeded \<and> vpc (snd r) = vpc seeded
        \<and> segments (snd r) = segments seeded
        \<and> versions (snd r) = versions seeded @ [v]
        \<and> snapshot_before v = snapshot_after v
        \<and> redo_stack (snd r) = []
        \<and> undo_stack (snd r) = undo_stack seeded @ [v]
        \<and> version_change_hash v = change_hash add_without_value
        \<and> change_hash add_without_value \<in> set (fingerprints (snd r))"
    using C10_missing_value_apply_is_recorded [OF h1 h2, of drawn]
    unfolding Let_def by (elim conjE) (intro conjI; assumption)
  then show ?thesis by (rule conjI [OF h1 conjI [OF h2]])
qed

end
